theory Spec2Isabelle
  imports Complex_Main "HOL-Library.Char_ord" "HOL-Library.List_Lexorder" "HOL-Library.Multiset"
begin

section \<open>JavaScript numbers\<close>

text \<open>
  A JavaScript \<^verbatim>\<open>number\<close> is modelled by the value it denotes: a finite double is the
  real number it stands for, and the three non-finite doubles are constructors of their
  own. The arithmetic on the non-finite values, on division by zero and on \<^verbatim>\<open>NaN\<close>
  follows IEEE 754 as ECMAScript prescribes it. Two things are idealised: the arithmetic
  on finite values is exact (no rounding, overflow or underflow), and the negative zero
  is identified with zero.
\<close>

datatype jsnum = Fin real | PInf | NInf | NaN

datatype js_error = TypeError

fun isFinite :: "jsnum \<Rightarrow> bool" where
  "isFinite (Fin _) = True"
| "isFinite _ = False"

text \<open>The relational operators \<^verbatim>\<open><\<close> and \<^verbatim>\<open><=\<close>: false as soon as an operand is NaN.\<close>

fun js_lt :: "jsnum \<Rightarrow> jsnum \<Rightarrow> bool" where
  "js_lt NaN _ = False"
| "js_lt _ NaN = False"
| "js_lt (Fin a) (Fin b) = (a < b)"
| "js_lt NInf NInf = False"
| "js_lt NInf _ = True"
| "js_lt _ NInf = False"
| "js_lt PInf _ = False"
| "js_lt _ PInf = True"

definition js_le :: "jsnum \<Rightarrow> jsnum \<Rightarrow> bool" where
  "js_le a b = (a \<noteq> NaN \<and> b \<noteq> NaN \<and> \<not> js_lt b a)"

fun js_neg :: "jsnum \<Rightarrow> jsnum" where
  "js_neg (Fin a) = Fin (- a)"
| "js_neg PInf = NInf"
| "js_neg NInf = PInf"
| "js_neg NaN = NaN"

fun js_add :: "jsnum \<Rightarrow> jsnum \<Rightarrow> jsnum" where
  "js_add NaN _ = NaN"
| "js_add _ NaN = NaN"
| "js_add (Fin a) (Fin b) = Fin (a + b)"
| "js_add PInf NInf = NaN"
| "js_add NInf PInf = NaN"
| "js_add PInf _ = PInf"
| "js_add _ PInf = PInf"
| "js_add NInf _ = NInf"
| "js_add _ NInf = NInf"

definition js_sub :: "jsnum \<Rightarrow> jsnum \<Rightarrow> jsnum" where
  "js_sub a b = js_add a (js_neg b)"

fun js_mul :: "jsnum \<Rightarrow> jsnum \<Rightarrow> jsnum" where
  "js_mul NaN _ = NaN"
| "js_mul _ NaN = NaN"
| "js_mul (Fin a) (Fin b) = Fin (a * b)"
| "js_mul x y =
     (if x = Fin 0 \<or> y = Fin 0 then NaN
      else if js_lt (Fin 0) x = js_lt (Fin 0) y then PInf else NInf)"

fun js_div :: "jsnum \<Rightarrow> jsnum \<Rightarrow> jsnum" where
  "js_div NaN _ = NaN"
| "js_div _ NaN = NaN"
| "js_div (Fin a) (Fin b) =
     (if b = 0 then (if a = 0 then NaN else if 0 < a then PInf else NInf)
      else Fin (a / b))"
| "js_div (Fin a) _ = Fin 0"
| "js_div x (Fin b) = (if 0 \<le> b then x else js_neg x)"
| "js_div _ _ = NaN"

text \<open>\<^verbatim>\<open>Math.max\<close> and \<^verbatim>\<open>Math.min\<close> of two arguments: NaN as soon as an argument is NaN.\<close>

definition Math_max :: "jsnum \<Rightarrow> jsnum \<Rightarrow> jsnum" where
  "Math_max a b = (if a = NaN \<or> b = NaN then NaN else if js_lt a b then b else a)"

definition Math_min :: "jsnum \<Rightarrow> jsnum \<Rightarrow> jsnum" where
  "Math_min a b = (if a = NaN \<or> b = NaN then NaN else if js_lt b a then b else a)"

text \<open>
  \<^verbatim>\<open>Math.pow\<close>, case by case as in ECMAScript's \<^verbatim>\<open>Number::exponentiate\<close>. On finite
  operands an integral exponent is an integer power and any other exponent is \<open>powr\<close>;
  the two agree on a positive base.
\<close>

definition isInteger :: "real \<Rightarrow> bool" where
  "isInteger e = (e = of_int \<lfloor>e\<rfloor>)"

definition isOddInteger :: "jsnum \<Rightarrow> bool" where
  "isOddInteger e = (case e of Fin r \<Rightarrow> isInteger r \<and> odd \<lfloor>r\<rfloor> | _ \<Rightarrow> False)"

definition fin_pow :: "real \<Rightarrow> real \<Rightarrow> real" where
  "fin_pow b e = (if isInteger e then b powi \<lfloor>e\<rfloor> else b powr e)"

definition Math_pow :: "jsnum \<Rightarrow> jsnum \<Rightarrow> jsnum" where
  "Math_pow base exponent =
     (if exponent = NaN then NaN
      else if exponent = Fin 0 then Fin 1
      else case base of
        NaN \<Rightarrow> NaN
      | PInf \<Rightarrow> (if js_lt (Fin 0) exponent then PInf else Fin 0)
      | NInf \<Rightarrow>
          (if js_lt (Fin 0) exponent
           then (if isOddInteger exponent then NInf else PInf)
           else Fin 0)
      | Fin b \<Rightarrow>
          (if b = 0 then (if js_lt (Fin 0) exponent then Fin 0 else PInf)
           else case exponent of
             PInf \<Rightarrow> (if 1 < \<bar>b\<bar> then PInf else if \<bar>b\<bar> = 1 then NaN else Fin 0)
           | NInf \<Rightarrow> (if 1 < \<bar>b\<bar> then Fin 0 else if \<bar>b\<bar> = 1 then NaN else PInf)
           | Fin e \<Rightarrow> (if b < 0 \<and> \<not> isInteger e then NaN else Fin (fin_pow b e))
           | NaN \<Rightarrow> NaN))"

section \<open>Strings to numbers\<close>

text \<open>
  \<^verbatim>\<open>Number(s)\<close> on a string, after ECMAScript's \<^verbatim>\<open>StringToNumber\<close>: white space is
  trimmed, the empty string is 0, and what remains is a signed decimal literal (with an
  optional fraction and exponent), \<^verbatim>\<open>Infinity\<close>, or an unsigned binary, octal or
  hexadecimal integer; anything else is NaN. A string is its list of code units, and the
  code units modelled are those below 256.
\<close>

definition isWhiteSpace :: "char \<Rightarrow> bool" where
  "isWhiteSpace c = (of_char c \<in> {9, 10, 11, 12, 13, 32, 160 :: nat})"

definition trim :: "string \<Rightarrow> string" where
  "trim s = rev (dropWhile isWhiteSpace (rev (dropWhile isWhiteSpace s)))"

definition digitValue :: "char \<Rightarrow> nat option" where
  "digitValue c =
     (let n = of_char c :: nat in
      if 48 \<le> n \<and> n \<le> 57 then Some (n - 48)
      else if 97 \<le> n \<and> n \<le> 102 then Some (n - 87)
      else if 65 \<le> n \<and> n \<le> 70 then Some (n - 55)
      else None)"

definition isDigitOf :: "nat \<Rightarrow> char \<Rightarrow> bool" where
  "isDigitOf radix c = (case digitValue c of None \<Rightarrow> False | Some d \<Rightarrow> d < radix)"

definition digitsValue :: "nat \<Rightarrow> string \<Rightarrow> nat" where
  "digitsValue radix ds = foldl (\<lambda>acc c. acc * radix + (case digitValue c of None \<Rightarrow> 0 | Some d \<Rightarrow> d)) 0 ds"

definition allDigits :: "nat \<Rightarrow> string \<Rightarrow> bool" where
  "allDigits radix ds = (ds \<noteq> [] \<and> list_all (isDigitOf radix) ds)"

text \<open>The exponent part: absent, or \<^verbatim>\<open>e\<close> with a signed, non-empty run of digits.\<close>

definition exponentPart :: "string \<Rightarrow> int option" where
  "exponentPart s =
     (case s of
        [] \<Rightarrow> Some 0
      | c # r \<Rightarrow>
          if c = CHR ''e'' \<or> c = CHR ''E'' then
            (case r of
               [] \<Rightarrow> None
             | d # ds \<Rightarrow>
                 if d = CHR ''+'' then (if allDigits 10 ds then Some (int (digitsValue 10 ds)) else None)
                 else if d = CHR ''-'' then (if allDigits 10 ds then Some (- int (digitsValue 10 ds)) else None)
                 else if allDigits 10 r then Some (int (digitsValue 10 r)) else None)
          else None)"

definition unsignedDecimal :: "string \<Rightarrow> jsnum" where
  "unsignedDecimal s =
     (if s = ''Infinity'' then PInf
      else
        let ip = takeWhile (isDigitOf 10) s;
            r1 = dropWhile (isDigitOf 10) s;
            dot = (r1 \<noteq> [] \<and> hd r1 = CHR ''.'');
            fp = (if dot then takeWhile (isDigitOf 10) (tl r1) else []);
            r2 = (if dot then dropWhile (isDigitOf 10) (tl r1) else r1)
        in if ip = [] \<and> fp = [] then NaN
           else case exponentPart r2 of
             None \<Rightarrow> NaN
           | Some ex \<Rightarrow> Fin (real (digitsValue 10 (ip @ fp)) * 10 powi (ex - int (length fp))))"

definition nonDecimal :: "string \<Rightarrow> jsnum option" where
  "nonDecimal s =
     (case s of
        z # x # ds \<Rightarrow>
          if z \<noteq> CHR ''0'' then None
          else if x = CHR ''x'' \<or> x = CHR ''X'' then
            Some (if allDigits 16 ds then Fin (real (digitsValue 16 ds)) else NaN)
          else if x = CHR ''o'' \<or> x = CHR ''O'' then
            Some (if allDigits 8 ds then Fin (real (digitsValue 8 ds)) else NaN)
          else if x = CHR ''b'' \<or> x = CHR ''B'' then
            Some (if allDigits 2 ds then Fin (real (digitsValue 2 ds)) else NaN)
          else None
      | _ \<Rightarrow> None)"

definition Number :: "string \<Rightarrow> jsnum" where
  "Number str =
     (let s = trim str in
      if s = [] then Fin 0
      else case nonDecimal s of
        Some n \<Rightarrow> n
      | None \<Rightarrow>
          if hd s = CHR ''+'' then unsignedDecimal (tl s)
          else if hd s = CHR ''-'' then js_neg (unsignedDecimal (tl s))
          else unsignedDecimal s)"

section \<open>The valuation engine: \<^verbatim>\<open>src/lib/valuations/rule1.ts\<close>\<close>

text \<open>
  A point of a series. The field \<open>p_val\<close> is a JavaScript number; a point whose value
  is \<^verbatim>\<open>null\<close> (the caller passes such points in its book-value and cash-flow series)
  fails \<^verbatim>\<open>Number.isFinite\<close> like a non-finite number and is modelled as one.
\<close>

record SeriesPoint =
  p_end :: string
  p_val :: jsnum

datatype GrowthBasis = bvps_5y | bvps_10y | fcf_5y | fcf_10y | eps_5y | eps_10y

fun growthBasisLabel :: "GrowthBasis \<Rightarrow> string" where
  "growthBasisLabel bvps_5y = ''BVPS last 5 years''"
| "growthBasisLabel bvps_10y = ''BVPS last 10 years''"
| "growthBasisLabel fcf_5y = ''Free Cash Flow last 5 years''"
| "growthBasisLabel fcf_10y = ''Free Cash Flow last 10 years''"
| "growthBasisLabel eps_5y = ''EPS last 5 years''"
| "growthBasisLabel eps_10y = ''EPS last 10 years''"

record Rule1Inputs =
  eps :: "SeriesPoint list"
  bookValuePerShareUSD :: "SeriesPoint list"
  freeCashFlowUSD :: "SeriesPoint list"
  historicPeRatio :: "jsnum option"
  latestPriceUSD :: "jsnum option"

record Rule1Knobs =
  years :: jsnum
  analystGrowth :: jsnum
  desiredReturn :: jsnum
  marginOfSafetyPercent :: jsnum
  growthBasis :: GrowthBasis

text \<open>The \<^verbatim>\<open>error\<close> object of a \<^verbatim>\<open>Rule1Failure\<close>; its \<^verbatim>\<open>type\<close> is a constant.\<close>

record Rule1Failure =
  error_message :: string
  error_growthBasis :: GrowthBasis
  error_pointsNeeded :: nat
  error_pointsAvailable :: nat

record Basis =
  key :: GrowthBasis
  label :: string
  pointsUsed :: nat
  yearsActual :: jsnum
  startEnd :: string
  endEnd :: string
  startVal :: jsnum
  endVal :: jsnum
  growth :: jsnum

record Rule1Result =
  latestEps :: jsnum
  basis :: Basis
  chosenGrowth :: jsnum
  historicPeUsed :: jsnum
  futureValue :: jsnum
  stickerPrice :: jsnum
  stickerPriceWithMOS :: jsnum
  currentPrice :: "jsnum option"

text \<open>What \<^verbatim>\<open>calculateRule1\<close> returns: \<^verbatim>\<open>null\<close>, a failure or a result.\<close>

datatype Rule1Outcome = Null | Failure Rule1Failure | Result Rule1Result

definition yearOf :: "string \<Rightarrow> jsnum" where
  "yearOf e = Number (take 4 e)"

definition cagr :: "jsnum \<Rightarrow> jsnum \<Rightarrow> jsnum \<Rightarrow> jsnum" where
  "cagr start end' yrs =
     (if \<not> isFinite start \<or> \<not> isFinite end' \<or> js_le yrs (Fin 0) then Fin 0
      else if js_le start (Fin 0) \<or> js_le end' (Fin 0) then Fin 0
      else js_sub (Math_pow (js_div end' start) (js_div (Fin 1) yrs)) (Fin 1))"

text \<open>
  \<^verbatim>\<open>Array.prototype.sort\<close> is stable, and the comparator orders the points by the
  code units of \<open>p_end\<close>: a stable sort by that key.
\<close>

definition normalizeSeries :: "SeriesPoint list \<Rightarrow> SeriesPoint list" where
  "normalizeSeries series = sort_key p_end (filter (\<lambda>p. isFinite (p_val p)) series)"

record GrowthByPoints =
  g_start :: SeriesPoint
  g_end :: SeriesPoint
  g_yearsActual :: jsnum
  g_growth :: jsnum

text \<open>
  With \<open>points = 0\<close> the start \<^verbatim>\<open>s[s.length]\<close> is \<^verbatim>\<open>undefined\<close>, and reading
  its \<^verbatim>\<open>end\<close> throws.
\<close>

definition computeGrowthByPoints :: "SeriesPoint list \<Rightarrow> nat \<Rightarrow> js_error + GrowthByPoints option" where
  "computeGrowthByPoints series points =
     (let s = normalizeSeries series in
      if length s < points then Inr None
      else if points = 0 then Inl TypeError
      else
        let end' = s ! (length s - 1);
            start = s ! (length s - points);
            yrs = Math_max (Fin 1) (js_sub (yearOf (p_end end')) (yearOf (p_end start)));
            g = cagr (p_val start) (p_val end') yrs
        in Inr (Some \<lparr> g_start = start, g_end = end', g_yearsActual = yrs, g_growth = g \<rparr>))"

fun pointsNeededForBasis :: "GrowthBasis \<Rightarrow> nat" where
  "pointsNeededForBasis bvps_5y = 6"
| "pointsNeededForBasis fcf_5y = 6"
| "pointsNeededForBasis eps_5y = 6"
| "pointsNeededForBasis bvps_10y = 10"
| "pointsNeededForBasis fcf_10y = 10"
| "pointsNeededForBasis eps_10y = 10"

text \<open>A count in a template string: its decimal digits.\<close>

fun showNat :: "nat \<Rightarrow> string" where
  "showNat n =
     (if n < 10 then [char_of (48 + n)]
      else showNat (n div 10) @ [char_of (48 + n mod 10)])"

declare showNat.simps [simp del]

definition calculateRule1 :: "Rule1Inputs \<Rightarrow> Rule1Knobs \<Rightarrow> js_error + Rule1Outcome" where
  "calculateRule1 inputs knobs =
     (let epsSeries = normalizeSeries (eps inputs) in
      if length epsSeries = 0 then Inr Null
      else
        let latestEps' = p_val (epsSeries ! (length epsSeries - 1)) in
        case historicPeRatio inputs of
          None \<Rightarrow> Inr Null
        | Some pe \<Rightarrow>
            if \<not> isFinite pe \<or> js_le pe (Fin 0) then Inr Null
            else
              let basisKey = growthBasis knobs;
                  basisLabel = growthBasisLabel basisKey;
                  basisSeries =
                    (if basisKey = bvps_5y \<or> basisKey = bvps_10y then bookValuePerShareUSD inputs
                     else if basisKey = fcf_5y \<or> basisKey = fcf_10y then freeCashFlowUSD inputs
                     else eps inputs);
                  pointsNeeded = pointsNeededForBasis basisKey;
                  normalized = normalizeSeries basisSeries;
                  pointsAvailable = length normalized
              in (case computeGrowthByPoints normalized pointsNeeded of
                   Inl e \<Rightarrow> Inl e
                 | Inr None \<Rightarrow>
                     Inr (Failure \<lparr>
                       error_message =
                         ''Not enough data to compute '' @ basisLabel @ '' (need '' @
                         showNat pointsNeeded @ '' annual points, have '' @
                         showNat pointsAvailable @ '')'',
                       error_growthBasis = basisKey,
                       error_pointsNeeded = pointsNeeded,
                       error_pointsAvailable = pointsAvailable \<rparr>)
                 | Inr (Some g) \<Rightarrow>
                     let basisGrowth = g_growth g;
                         chosenGrowth' = Math_min (analystGrowth knobs) basisGrowth;
                         futureValue' =
                           js_mul (js_mul latestEps' pe)
                             (Math_pow (js_add (Fin 1) chosenGrowth') (years knobs));
                         stickerPrice' =
                           js_div futureValue'
                             (Math_pow (js_add (Fin 1) (desiredReturn knobs)) (years knobs));
                         mosFactor =
                           Math_max (Fin 0)
                             (Math_min (Fin 1)
                               (js_div (js_sub (Fin 100) (marginOfSafetyPercent knobs)) (Fin 100)));
                         stickerPriceWithMOS' = js_mul stickerPrice' mosFactor
                     in Inr (Result \<lparr>
                          latestEps = latestEps',
                          basis = \<lparr>
                            key = basisKey,
                            label = basisLabel,
                            pointsUsed = pointsNeeded,
                            yearsActual = g_yearsActual g,
                            startEnd = p_end (g_start g),
                            endEnd = p_end (g_end g),
                            startVal = p_val (g_start g),
                            endVal = p_val (g_end g),
                            growth = basisGrowth \<rparr>,
                          chosenGrowth = chosenGrowth',
                          historicPeUsed = pe,
                          futureValue = futureValue',
                          stickerPrice = stickerPrice',
                          stickerPriceWithMOS = stickerPriceWithMOS',
                          currentPrice = latestPriceUSD inputs \<rparr>)))"

section \<open>Fact normalisation and lookups: \<^verbatim>\<open>src/app/api/financials/route.ts\<close>\<close>

subsection \<open>The company facts\<close>

text \<open>
  The facts document is read only along
  \<^verbatim>\<open>facts?.facts?.["us-gaap"]?.[tag]?.units\<close>: a partial map from tags to units
  objects. A units object is the list of its keys, in the order \<^verbatim>\<open>Object.keys\<close>
  enumerates them, each with its value, which is an array or is not (\<open>None\<close>). An array
  element is falsy (\<open>None\<close>) or a fact; the \<^verbatim>\<open>end\<close> of a fact is a string or is not,
  its \<^verbatim>\<open>val\<close> a number or not, its \<^verbatim>\<open>frame\<close> a string or not. A fact without a
  \<^verbatim>\<open>form\<close> or \<^verbatim>\<open>fp\<close> behaves like one with another form or period.
\<close>

record RawFact =
  f_end :: "string option"
  f_val :: "jsnum option"
  f_form :: string
  f_fp :: string
  f_frame :: "string option"

type_synonym FactArray = "RawFact option list"

type_synonym Units = "(string \<times> FactArray option) list"

type_synonym CompanyFacts = "string \<rightharpoonup> Units"

type_synonym YearPoint = SeriesPoint

definition isFiniteNumber :: "jsnum option \<Rightarrow> bool" where
  "isFiniteNumber x = (case x of None \<Rightarrow> False | Some v \<Rightarrow> isFinite v)"

fun Math_abs :: "jsnum \<Rightarrow> jsnum" where
  "Math_abs (Fin a) = Fin \<bar>a\<bar>"
| "Math_abs PInf = PInf"
| "Math_abs NInf = PInf"
| "Math_abs NaN = NaN"

text \<open>\<^verbatim>\<open>Math.round\<close>: the nearest integer, a half rounded up.\<close>

fun Math_round :: "jsnum \<Rightarrow> jsnum" where
  "Math_round (Fin a) = Fin (of_int \<lfloor>a + 1 / 2\<rfloor>)"
| "Math_round x = x"

text \<open>The array under a key of a units object, when that value is an array.\<close>

definition unitArray :: "Units \<Rightarrow> string \<Rightarrow> FactArray option" where
  "unitArray node unitKey = (case map_of node unitKey of Some (Some arr) \<Rightarrow> Some arr | _ \<Rightarrow> None)"

definition usdArray :: "CompanyFacts \<Rightarrow> string \<Rightarrow> FactArray option" where
  "usdArray facts tag = (case facts tag of None \<Rightarrow> None | Some node \<Rightarrow> unitArray node ''USD'')"

subsection \<open>Annual series\<close>

text \<open>The regular expression \<^verbatim>\<open>/Q[1-4]/\<close>, tested anywhere in the string.\<close>

fun hasQuarter :: "string \<Rightarrow> bool" where
  "hasQuarter (a # b # r) = ((a = CHR ''Q'' \<and> b \<in> set ''1234'') \<or> hasQuarter (b # r))"
| "hasQuarter _ = False"

text \<open>The filter of annual facts, the same in both series functions.\<close>

definition isAnnualFact :: "RawFact option \<Rightarrow> bool" where
  "isAnnualFact x =
     (case x of
        None \<Rightarrow> False
      | Some f \<Rightarrow>
          if f_form f \<noteq> ''10-K'' then False
          else if f_fp f \<noteq> ''FY'' then False
          else if f_end f = None then False
          else if \<not> isFiniteNumber (f_val f) then False
          else if (case f_frame f of None \<Rightarrow> False | Some fr \<Rightarrow> hasQuarter fr) then False
          else True)"

definition toYearPoint :: "RawFact option \<Rightarrow> YearPoint" where
  "toYearPoint x = \<lparr> p_end = the (f_end (the x)), p_val = the (f_val (the x)) \<rparr>"

text \<open>
  The \<^verbatim>\<open>Map\<close> from end dates to values, as the list of its entries in insertion order:
  a new key goes to the end, a key already there keeps its place.
\<close>

fun mapSet :: "string \<Rightarrow> jsnum \<Rightarrow> (string \<times> jsnum) list \<Rightarrow> (string \<times> jsnum) list" where
  "mapSet k v [] = [(k, v)]"
| "mapSet k v ((k', v') # m) = (if k = k' then (k, v) # m else (k', v') # mapSet k v m)"

definition byEndStep :: "(string \<times> jsnum) list \<Rightarrow> YearPoint \<Rightarrow> (string \<times> jsnum) list" where
  "byEndStep byEnd p =
     (case map_of byEnd (p_end p) of
        None \<Rightarrow> mapSet (p_end p) (p_val p) byEnd
      | Some prev \<Rightarrow>
          if js_lt (Math_abs prev) (Math_abs (p_val p)) then mapSet (p_end p) (p_val p) byEnd
          else byEnd)"

text \<open>
  \<^verbatim>\<open>Array.prototype.sort\<close> with a comparator: an element goes before another when the
  comparator is negative. For a consistent comparator the result is the one stable
  sorted arrangement, which the insertion below computes.
\<close>

fun insertBy :: "('a \<Rightarrow> 'a \<Rightarrow> int) \<Rightarrow> 'a \<Rightarrow> 'a list \<Rightarrow> 'a list" where
  "insertBy cmp x [] = [x]"
| "insertBy cmp x (y # ys) = (if cmp x y \<le> 0 then x # y # ys else y # insertBy cmp x ys)"

definition sortBy :: "('a \<Rightarrow> 'a \<Rightarrow> int) \<Rightarrow> 'a list \<Rightarrow> 'a list" where
  "sortBy cmp xs = foldr (insertBy cmp) xs []"

text \<open>
  The deduplication by end date and the final sort, by \<^verbatim>\<open>a.end.localeCompare(b.end)\<close>.
  The collation of \<^verbatim>\<open>String.prototype.localeCompare\<close> belongs to the engine and its
  locale, so the comparison of two strings (negative, zero or positive) is the parameter
  \<open>localeCompare\<close> of the series functions.
\<close>

definition dedupAndSort :: "(string \<Rightarrow> string \<Rightarrow> int) \<Rightarrow> YearPoint list \<Rightarrow> YearPoint list" where
  "dedupAndSort localeCompare ps =
     sortBy (\<lambda>a b. localeCompare (p_end a) (p_end b))
       (map (\<lambda>(e, v). \<lparr> p_end = e, p_val = v \<rparr>) (foldl byEndStep [] ps))"

fun pickAnnualSeriesByUnit ::
    "(string \<Rightarrow> string \<Rightarrow> int) \<Rightarrow> CompanyFacts \<Rightarrow> string list \<Rightarrow> (string \<Rightarrow> bool) \<Rightarrow> YearPoint list" where
  "pickAnnualSeriesByUnit localeCompare facts [] unitPredicate = []"
| "pickAnnualSeriesByUnit localeCompare facts (tag # tagCandidates) unitPredicate =
     (case facts tag of
        None \<Rightarrow> pickAnnualSeriesByUnit localeCompare facts tagCandidates unitPredicate
      | Some node \<Rightarrow>
          (case find unitPredicate (map fst node) of
             None \<Rightarrow> pickAnnualSeriesByUnit localeCompare facts tagCandidates unitPredicate
           | Some unitKey \<Rightarrow>
               if unitKey = [] then pickAnnualSeriesByUnit localeCompare facts tagCandidates unitPredicate
               else
                 (case unitArray node unitKey of
                    None \<Rightarrow> pickAnnualSeriesByUnit localeCompare facts tagCandidates unitPredicate
                  | Some arr \<Rightarrow>
                      let annualRaw = map toYearPoint (filter isAnnualFact arr);
                          annual = dedupAndSort localeCompare annualRaw
                      in if annual \<noteq> [] then annual
                         else pickAnnualSeriesByUnit localeCompare facts tagCandidates unitPredicate)))"

definition pickAnnualUSDSeries ::
    "(string \<Rightarrow> string \<Rightarrow> int) \<Rightarrow> CompanyFacts \<Rightarrow> string list \<Rightarrow> YearPoint list" where
  "pickAnnualUSDSeries localeCompare facts tagCandidates =
     pickAnnualSeriesByUnit localeCompare facts tagCandidates (\<lambda>u. u = ''USD'')"

definition mergeAnnualUSDSeries ::
    "(string \<Rightarrow> string \<Rightarrow> int) \<Rightarrow> CompanyFacts \<Rightarrow> string list \<Rightarrow> YearPoint list" where
  "mergeAnnualUSDSeries localeCompare facts tagCandidates =
     (let all = concat (map (\<lambda>tag.
                  case usdArray facts tag of
                    None \<Rightarrow> []
                  | Some node \<Rightarrow> map toYearPoint (filter isAnnualFact node)) tagCandidates)
      in dedupAndSort localeCompare all)"

subsection \<open>Price history\<close>

record DailyClose =
  date :: string
  close :: jsnum

text \<open>
  The loop of the binary search, on its three variables. Reading \<^verbatim>\<open>history[mid].date\<close>
  outside the array throws.
\<close>

function closeLoop :: "DailyClose list \<Rightarrow> string \<Rightarrow> int \<Rightarrow> int \<Rightarrow> int \<Rightarrow> js_error + int" where
  "closeLoop history isoDate lo hi ans =
     (if lo \<le> hi then
        let mid = (lo + hi) div 2 in
        if mid < 0 \<or> int (length history) \<le> mid then Inl TypeError
        else if date (history ! nat mid) \<le> isoDate
          then closeLoop history isoDate (mid + 1) hi mid
          else closeLoop history isoDate lo (mid - 1) ans
      else Inr ans)"
  by pat_completeness auto
termination
  by (relation "measure (\<lambda>(history, isoDate, lo, hi, ans). nat (hi - lo + 1))") auto

declare closeLoop.simps [simp del]

definition closeOnOrBefore :: "DailyClose list \<Rightarrow> string \<Rightarrow> js_error + jsnum option" where
  "closeOnOrBefore history isoDate =
     (case closeLoop history isoDate 0 (int (length history) - 1) (- 1) of
        Inl e \<Rightarrow> Inl e
      | Inr ans \<Rightarrow> Inr (if 0 \<le> ans then Some (close (history ! nat ans)) else None))"

subsection \<open>Nearest-date lookups\<close>

text \<open>The facts of an array that have a string \<^verbatim>\<open>end\<close> and a finite \<^verbatim>\<open>val\<close>.\<close>

definition datedValues :: "FactArray \<Rightarrow> YearPoint list" where
  "datedValues arr =
     map toYearPoint
       (filter (\<lambda>x. case x of None \<Rightarrow> False
                     | Some f \<Rightarrow> f_end f \<noteq> None \<and> isFiniteNumber (f_val f)) arr)"

text \<open>
  The selection loop, the same in the three lookups: a candidate replaces the best one
  only when its distance is strictly smaller.
\<close>

definition nearestStep ::
    "(YearPoint \<Rightarrow> jsnum) \<Rightarrow> YearPoint option \<times> jsnum \<Rightarrow> YearPoint \<Rightarrow> YearPoint option \<times> jsnum" where
  "nearestStep distance st c =
     (let d = distance c in if js_lt d (snd st) then (Some c, d) else st)"

definition nearestLoop :: "(YearPoint \<Rightarrow> jsnum) \<Rightarrow> YearPoint list \<Rightarrow> YearPoint option \<times> jsnum" where
  "nearestLoop distance candidates = foldl (nearestStep distance) (None, PInf) candidates"

text \<open>The date as a number: \<^verbatim>\<open>Number(s.replaceAll("-", ""))\<close>.\<close>

definition dateNumber :: "string \<Rightarrow> jsnum" where
  "dateNumber s = Number (filter (\<lambda>c. c \<noteq> CHR ''-'') s)"

definition pickDebtNearestToEndDate :: "CompanyFacts \<Rightarrow> string \<Rightarrow> jsnum option" where
  "pickDebtNearestToEndDate facts endDate =
     (let tryTag = (\<lambda>tag. case usdArray facts tag of None \<Rightarrow> [] | Some units \<Rightarrow> datedValues units);
          candidates = tryTag ''LongTermDebtNoncurrent'' @ tryTag ''LongTermDebt''
      in if length candidates = 0 then None
         else
           let (best, bestDiff) =
                 nearestLoop (\<lambda>c. Math_abs (js_sub (dateNumber (p_end c)) (dateNumber endDate)))
                   candidates
           in case best of None \<Rightarrow> None | Some b \<Rightarrow> Some (p_val b))"

definition pickNearestUSDValue :: "CompanyFacts \<Rightarrow> string list \<Rightarrow> string \<Rightarrow> jsnum \<Rightarrow> jsnum option" where
  "pickNearestUSDValue facts tagCandidates endDate maxDays =
     (let candidates =
            concat (map (\<lambda>tag. case usdArray facts tag of None \<Rightarrow> [] | Some arr \<Rightarrow> datedValues arr)
              tagCandidates)
      in if length candidates = 0 then None
         else
           let target = dateNumber endDate;
               (best, bestDiff) =
                 nearestLoop (\<lambda>c. Math_abs (js_sub (dateNumber (p_end c)) target)) candidates
           in case best of
                None \<Rightarrow> None
              | Some b \<Rightarrow>
                  if js_lt (js_mul maxDays (Fin 10)) bestDiff then None
                  else Some (p_val b))"

text \<open>
  \<^verbatim>\<open>daysBetween\<close> reads the two dates through \<^verbatim>\<open>new Date(iso + "T00:00:00Z").getTime()\<close>.
  How a string that is not a calendar date is parsed is left to the engine, so the
  function from the date string to the time value (milliseconds, or NaN for an invalid
  date) is the parameter \<open>getTime\<close>.
\<close>

definition daysBetween :: "(string \<Rightarrow> jsnum) \<Rightarrow> string \<Rightarrow> string \<Rightarrow> jsnum" where
  "daysBetween getTime aISO bISO =
     (let a = getTime aISO; b = getTime bISO
      in Math_abs (Math_round (js_div (js_sub a b) (Fin (1000 * 60 * 60 * 24)))))"

text \<open>\<^verbatim>\<open>toLowerCase\<close> on the letters A to Z.\<close>

definition toLowerCase :: "string \<Rightarrow> string" where
  "toLowerCase s =
     map (\<lambda>c. if 65 \<le> (of_char c :: nat) \<and> (of_char c :: nat) \<le> 90
               then char_of ((of_char c :: nat) + 32) else c) s"

definition shareCandidates :: "CompanyFacts \<Rightarrow> string \<Rightarrow> YearPoint list" where
  "shareCandidates facts tag =
     (case facts tag of
        None \<Rightarrow> []
      | Some unitsObj \<Rightarrow>
          (case find (\<lambda>k. toLowerCase k = ''shares'') (map fst unitsObj) of
             None \<Rightarrow> []
           | Some unitKey \<Rightarrow>
               (case unitArray unitsObj unitKey of
                  None \<Rightarrow> []
                | Some arr \<Rightarrow> datedValues arr)))"

definition pickSharesNearestToEndDate ::
    "(string \<Rightarrow> jsnum) \<Rightarrow> CompanyFacts \<Rightarrow> string \<Rightarrow> jsnum option" where
  "pickSharesNearestToEndDate getTime facts endDate =
     (let shareTags = [''CommonStockSharesOutstanding'', ''EntityCommonStockSharesOutstanding''];
          candidates = concat (map (shareCandidates facts) shareTags)
      in if length candidates = 0 then None
         else
           let (best, bestDays) =
                 nearestLoop (\<lambda>c. daysBetween getTime (p_end c) endDate) candidates
           in case best of
                None \<Rightarrow> None
              | Some b \<Rightarrow> if js_lt (Fin 180) bestDays then None else Some (p_val b))"

text \<open>
  The time value of an ISO calendar date \<^verbatim>\<open>YYYY-MM-DD\<close> at midnight UTC, on which all
  engines agree; any other string is an invalid date here.
\<close>

definition isLeapYear :: "int \<Rightarrow> bool" where
  "isLeapYear y = (y mod 4 = 0 \<and> (y mod 100 \<noteq> 0 \<or> y mod 400 = 0))"

definition daysInMonth :: "int \<Rightarrow> nat \<Rightarrow> int" where
  "daysInMonth y m =
     (if m = 2 then (if isLeapYear y then 29 else 28)
      else if m \<in> {4, 6, 9, 11} then 30 else 31)"

definition daysBeforeMonth :: "int \<Rightarrow> nat \<Rightarrow> int" where
  "daysBeforeMonth y m =
     [0, 31, 59, 90, 120, 151, 181, 212, 243, 273, 304, 334] ! (m - 1)
     + (if 2 < m \<and> isLeapYear y then 1 else 0)"

definition daysFromCivil :: "int \<Rightarrow> nat \<Rightarrow> int \<Rightarrow> int" where
  "daysFromCivil y m d =
     365 * (y - 1970) + ((y - 1969) div 4 - (y - 1901) div 100 + (y - 1601) div 400)
     + daysBeforeMonth y m + (d - 1)"

definition isoTime :: "string \<Rightarrow> jsnum" where
  "isoTime s =
     (if length s = 10 \<and> s ! 4 = CHR ''-'' \<and> s ! 7 = CHR ''-''
         \<and> allDigits 10 (take 4 s) \<and> allDigits 10 (take 2 (drop 5 s))
         \<and> allDigits 10 (drop 8 s)
      then
        let y = int (digitsValue 10 (take 4 s));
            m = digitsValue 10 (take 2 (drop 5 s));
            d = int (digitsValue 10 (drop 8 s))
        in if 1 \<le> m \<and> m \<le> 12 \<and> 1 \<le> d \<and> d \<le> daysInMonth y m
           then Fin (of_int (daysFromCivil y m d * 86400000))
           else NaN
      else NaN)"

section \<open>Reference definitions and example data\<close>

text \<open>The series a growth basis selects: the chain of tests in \<^verbatim>\<open>calculateRule1\<close>.\<close>

definition basisSeriesFor :: "Rule1Inputs \<Rightarrow> GrowthBasis \<Rightarrow> SeriesPoint list" where
  "basisSeriesFor inputs b =
     (if b = bvps_5y \<or> b = bvps_10y then bookValuePerShareUSD inputs
      else if b = fcf_5y \<or> b = fcf_10y then freeCashFlowUSD inputs
      else eps inputs)"

text \<open>
  The growth as the specification words it, on a normalized series \<open>t\<close> with at least
  \<open>n\<close> points: the start is \<open>n\<close> positions from the end, the end is the last point, and
  the growth is the compound rate when both values are positive, and 0 otherwise.
\<close>

definition growthOf :: "SeriesPoint list \<Rightarrow> nat \<Rightarrow> GrowthByPoints" where
  "growthOf t n =
     (let e = last t;
          s = t ! (length t - n);
          y = Math_max (Fin 1) (js_sub (yearOf (p_end e)) (yearOf (p_end s)))
      in \<lparr> g_start = s, g_end = e, g_yearsActual = y,
           g_growth =
             (if js_lt (Fin 0) (p_val s) \<and> js_lt (Fin 0) (p_val e)
              then js_sub (Math_pow (js_div (p_val e) (p_val s)) (js_div (Fin 1) y)) (Fin 1)
              else Fin 0) \<rparr>)"

definition mkSeries :: "(string \<times> jsnum) list \<Rightarrow> SeriesPoint list" where
  "mkSeries = map (\<lambda>(e, v). \<lparr> p_end = e, p_val = v \<rparr>)"

text \<open>Six annual points, from 100 in 2015 to 200 in 2020.\<close>

definition sixPoints :: "SeriesPoint list" where
  "sixPoints = mkSeries
     [(''2015-12-31'', Fin 100), (''2016-12-31'', Fin 120), (''2017-12-31'', Fin 140),
      (''2018-12-31'', Fin 160), (''2019-12-31'', Fin 180), (''2020-12-31'', Fin 200)]"

text \<open>Nine annual points of value 1, and a tenth.\<close>

definition ninePoints :: "SeriesPoint list" where
  "ninePoints = mkSeries
     [(''2011-12-31'', Fin 1), (''2012-12-31'', Fin 1), (''2013-12-31'', Fin 1),
      (''2014-12-31'', Fin 1), (''2015-12-31'', Fin 1), (''2016-12-31'', Fin 1),
      (''2017-12-31'', Fin 1), (''2018-12-31'', Fin 1), (''2019-12-31'', Fin 1)]"

definition tenPoints :: "SeriesPoint list" where
  "tenPoints = ninePoints @ mkSeries [(''2020-12-31'', Fin 1)]"

text \<open>Six points that all carry the same end date.\<close>

definition sameDatePoints :: "SeriesPoint list" where
  "sameDatePoints = mkSeries
     [(''2020-12-31'', Fin 1), (''2020-12-31'', Fin 2), (''2020-12-31'', Fin 3),
      (''2020-12-31'', Fin 4), (''2020-12-31'', Fin 5), (''2020-12-31'', Fin 6)]"

definition inputsOf :: "SeriesPoint list \<Rightarrow> jsnum option \<Rightarrow> Rule1Inputs" where
  "inputsOf series pe =
     \<lparr> eps = series, bookValuePerShareUSD = sixPoints, freeCashFlowUSD = [],
       historicPeRatio = pe, latestPriceUSD = None \<rparr>"

definition knobsOf :: "GrowthBasis \<Rightarrow> jsnum \<Rightarrow> jsnum \<Rightarrow> jsnum \<Rightarrow> Rule1Knobs" where
  "knobsOf b g ret mos =
     \<lparr> years = Fin 10, analystGrowth = g, desiredReturn = ret,
       marginOfSafetyPercent = mos, growthBasis = b \<rparr>"

text \<open>
  When the valuation cannot be attempted: no finite EPS point, or no P/E that is finite
  and positive.
\<close>

definition cannotAttempt :: "Rule1Inputs \<Rightarrow> bool" where
  "cannotAttempt inputs =
     (normalizeSeries (eps inputs) = [] \<or>
      (case historicPeRatio inputs of
         None \<Rightarrow> True
       | Some pe \<Rightarrow> \<not> isFinite pe \<or> js_le pe (Fin 0)))"

text \<open>Three daily closes, with a weekend between the last two.\<close>

definition exHistory :: "DailyClose list" where
  "exHistory =
     [\<lparr> date = ''2020-01-02'', close = Fin 10 \<rparr>, \<lparr> date = ''2020-01-03'', close = Fin 11 \<rparr>,
      \<lparr> date = ''2020-01-06'', close = Fin 12 \<rparr>]"

text \<open>
  What the map from end dates to values holds after the points \<open>ps\<close>: one entry for
  each end date of \<open>ps\<close>, whose value is the value of a point of that date and which no
  point of that date exceeds in absolute value.
\<close>

definition byEndInv :: "YearPoint list \<Rightarrow> (string \<times> jsnum) list \<Rightarrow> bool" where
  "byEndInv ps m =
     (distinct (map fst m) \<and> fst ` set m = p_end ` set ps \<and>
      (\<forall>e v. map_of m e = Some v \<longrightarrow>
         (\<exists>p \<in> set ps. p_end p = e \<and> p_val p = v) \<and>
         (\<forall>p \<in> set ps. p_end p = e \<longrightarrow> \<not> js_lt (Math_abs v) (Math_abs (p_val p)))))"

text \<open>
  The array that \<^verbatim>\<open>pickAnnualSeriesByUnit\<close> reads for a tag: the one under the first
  unit key that satisfies the predicate, when there is one; its annual facts as points;
  and the series the tag yields, empty when the tag is passed over.
\<close>

definition selectedArray :: "CompanyFacts \<Rightarrow> (string \<Rightarrow> bool) \<Rightarrow> string \<Rightarrow> FactArray option" where
  "selectedArray facts unitPredicate tag =
     (case facts tag of
        None \<Rightarrow> None
      | Some node \<Rightarrow>
          (case find unitPredicate (map fst node) of
             None \<Rightarrow> None
           | Some unitKey \<Rightarrow> if unitKey = [] then None else unitArray node unitKey))"

definition qualifying :: "FactArray \<Rightarrow> YearPoint list" where
  "qualifying arr = map toYearPoint (filter isAnnualFact arr)"

definition tagSeries ::
    "(string \<Rightarrow> string \<Rightarrow> int) \<Rightarrow> CompanyFacts \<Rightarrow> (string \<Rightarrow> bool) \<Rightarrow> string \<Rightarrow> YearPoint list" where
  "tagSeries localeCompare facts unitPredicate tag =
     (case selectedArray facts unitPredicate tag of
        None \<Rightarrow> []
      | Some arr \<Rightarrow> dedupAndSort localeCompare (qualifying arr))"

text \<open>The annual facts of all the tag candidates, as \<^verbatim>\<open>mergeAnnualUSDSeries\<close> collects them.\<close>

definition mergedFacts :: "CompanyFacts \<Rightarrow> string list \<Rightarrow> YearPoint list" where
  "mergedFacts facts tagCandidates =
     concat (map (\<lambda>tag. case usdArray facts tag of None \<Rightarrow> [] | Some arr \<Rightarrow> qualifying arr)
       tagCandidates)"



text \<open>Example facts: an annual fact of a 10-K, and a company with four tags in dollars.\<close>

definition annualFact :: "string \<Rightarrow> real \<Rightarrow> RawFact option" where
  "annualFact e v =
     Some \<lparr> f_end = Some e, f_val = Some (Fin v), f_form = ''10-K'', f_fp = ''FY'',
            f_frame = None \<rparr>"

definition exFacts :: CompanyFacts where
  "exFacts =
     [''Dup'' \<mapsto> [(''USD'', Some [annualFact ''2020-12-31'' 100, annualFact ''2020-12-31'' (- 150)])],
      ''Quarterly'' \<mapsto>
        [(''USD'', Some [Some \<lparr> f_end = Some ''2020-03-31'', f_val = Some (Fin 30),
                                f_form = ''10-Q'', f_fp = ''Q1'', f_frame = None \<rparr>])],
      ''Revenues'' \<mapsto>
        [(''USD'', Some [annualFact ''2020-12-31'' 100, annualFact ''2019-12-31'' 80,
                        annualFact ''2020-12-31'' (- 150)])],
      ''SalesRevenueNet'' \<mapsto>
        [(''USD'', Some [annualFact ''2018-12-31'' 70, annualFact ''2020-12-31'' 120])]]"

text \<open>
  Example facts for the lookups: two share counts ten days either side of 2020-12-31,
  the later one first; two debt values, one a day after that date and one six months
  before; an equity value eleven months before; a cash value a day after; and a debt
  value ten years before.
\<close>

definition lookupFacts :: CompanyFacts where
  "lookupFacts =
     [''CommonStockSharesOutstanding'' \<mapsto>
        [(''shares'', Some [annualFact ''2021-01-10'' 5, annualFact ''2020-12-21'' 7])],
      ''LongTermDebt'' \<mapsto>
        [(''USD'', Some [annualFact ''2021-01-01'' 1, annualFact ''2020-06-30'' 2])],
      ''StockholdersEquity'' \<mapsto>
        [(''USD'', Some [annualFact ''2020-01-31'' 3])],
      ''CashAndCashEquivalentsAtCarryingValue'' \<mapsto>
        [(''USD'', Some [annualFact ''2021-01-01'' 4])]]"

definition oldDebtFacts :: CompanyFacts where
  "oldDebtFacts = [''LongTermDebt'' \<mapsto> [(''USD'', Some [annualFact ''2010-12-31'' 9])]]"

text \<open>
  The candidate \<open>b\<close> is the first, in the order of the list, at the least distance: it
  has a distance below infinity, no candidate is closer, and every candidate before it
  is farther or has no distance (NaN).
\<close>

definition isFirstNearest :: "(YearPoint \<Rightarrow> jsnum) \<Rightarrow> YearPoint list \<Rightarrow> YearPoint \<Rightarrow> bool" where
  "isFirstNearest distance candidates b =
     (\<exists>i < length candidates.
        candidates ! i = b \<and> js_lt (distance b) PInf \<and>
        (\<forall>j < length candidates. \<not> js_lt (distance (candidates ! j)) (distance b)) \<and>
        (\<forall>j < i. \<not> js_le (distance (candidates ! j)) (distance b)))"

text \<open>
  The candidates the lookups collect: the dated values in dollars of the tags, in tag
  order, and the dated share counts of the two share tags; and the distance of the
  dollar lookups, between the dates read as numbers.
\<close>

definition usdCandidates :: "CompanyFacts \<Rightarrow> string list \<Rightarrow> YearPoint list" where
  "usdCandidates facts tagCandidates =
     concat (map (\<lambda>tag. case usdArray facts tag of None \<Rightarrow> [] | Some arr \<Rightarrow> datedValues arr)
       tagCandidates)"

definition allShareCandidates :: "CompanyFacts \<Rightarrow> YearPoint list" where
  "allShareCandidates facts =
     concat (map (shareCandidates facts)
       [''CommonStockSharesOutstanding'', ''EntityCommonStockSharesOutstanding''])"

definition encodingDistance :: "string \<Rightarrow> YearPoint \<Rightarrow> jsnum" where
  "encodingDistance endDate c = Math_abs (js_sub (dateNumber (p_end c)) (dateNumber endDate))"

text \<open>What the selection loop holds after the candidates \<open>cs\<close>.\<close>

definition nearestInv :: "(YearPoint \<Rightarrow> jsnum) \<Rightarrow> YearPoint list \<Rightarrow> YearPoint option \<times> jsnum \<Rightarrow> bool" where
  "nearestInv distance cs st =
     (case fst st of
        None \<Rightarrow> snd st = PInf \<and> (\<forall>c \<in> set cs. \<not> js_lt (distance c) PInf)
      | Some b \<Rightarrow> snd st = distance b \<and> isFirstNearest distance cs b)"

text \<open>
  A consistent comparator: any two strings are comparable, and the comparison is
  transitive. Collations are.
\<close>

definition consistentComparator :: "(string \<Rightarrow> string \<Rightarrow> int) \<Rightarrow> bool" where
  "consistentComparator cmp =
     ((\<forall>a b. cmp a b \<le> 0 \<or> cmp b a \<le> 0) \<and>
      (\<forall>a b c. cmp a b \<le> 0 \<and> cmp b c \<le> 0 \<longrightarrow> cmp a c \<le> 0))"

text \<open>
  The shape \<^verbatim>\<open>YYYY-MM-DD\<close> of an ISO date, and a comparator that orders the strings of
  that shape as their code units do, which is the order of the dates.
\<close>

definition isIsoDate :: "string \<Rightarrow> bool" where
  "isIsoDate s =
     (length s = 10 \<and> s ! 4 = CHR ''-'' \<and> s ! 7 = CHR ''-'' \<and> allDigits 10 (take 4 s) \<and>
      allDigits 10 (take 2 (drop 5 s)) \<and> allDigits 10 (drop 8 s))"

definition agreesOnIsoDates :: "(string \<Rightarrow> string \<Rightarrow> int) \<Rightarrow> bool" where
  "agreesOnIsoDates cmp =
     (\<forall>a b. isIsoDate a \<and> isIsoDate b \<longrightarrow> (cmp a b \<le> 0) = (a \<le> b))"

text \<open>
  Two comparators for the examples. The first compares code units, as
  \<^verbatim>\<open>localeCompare\<close> does on ISO dates. The second compares letters without regard to
  case first, and puts lower case before upper case on a tie, as collations do: it puts
  \<^verbatim>\<open>a\<close> before \<^verbatim>\<open>B\<close>, as \<^verbatim>\<open>"a".localeCompare("B")\<close> does.
\<close>

definition codeUnitCompare :: "string \<Rightarrow> string \<Rightarrow> int" where
  "codeUnitCompare a b = (if a < b then - 1 else if b < a then 1 else 0)"

definition collationCompare :: "string \<Rightarrow> string \<Rightarrow> int" where
  "collationCompare a b =
     (if toLowerCase a < toLowerCase b then - 1
      else if toLowerCase b < toLowerCase a then 1
      else codeUnitCompare b a)"

text \<open>Facts whose end strings are not dates.\<close>

definition letterFacts :: CompanyFacts where
  "letterFacts = [''Revenues'' \<mapsto> [(''USD'', Some [annualFact ''a'' 1, annualFact ''B'' 2])]]"

section \<open>Properties of the valuation engine\<close>

subsection \<open>Numbers\<close>

lemma js_le_Fin: "js_le (Fin a) (Fin b) \<longleftrightarrow> a \<le> b"
  by (auto simp: js_le_def)

lemma Math_max_one_not_le_zero: "\<not> js_le (Math_max (Fin 1) x) (Fin 0)"
  by (cases x) (simp_all add: Math_max_def js_le_def)

lemma not_js_le_zero_iff: "isFinite x \<Longrightarrow> \<not> js_le x (Fin 0) \<longleftrightarrow> js_lt (Fin 0) x"
  by (cases x) (simp_all add: js_le_def)

subsection \<open>Series normalisation and growth\<close>

lemma normalizeSeries_finite: "p \<in> set (normalizeSeries s) \<Longrightarrow> isFinite (p_val p)"
  by (simp add: normalizeSeries_def)

lemma normalizeSeries_sorted: "sorted (map p_end (normalizeSeries s))"
  by (simp add: normalizeSeries_def)

lemma normalizeSeries_idem: "normalizeSeries (normalizeSeries s) = normalizeSeries s"
proof -
  have "filter (\<lambda>p. isFinite (p_val p)) (normalizeSeries s) = normalizeSeries s"
    by (rule filter_True) (simp add: normalizeSeries_finite)
  moreover have "sort_key p_end (normalizeSeries s) = normalizeSeries s"
    by (rule sort_key_id_if_sorted) (rule normalizeSeries_sorted)
  ultimately show ?thesis
    by (simp add: normalizeSeries_def[of "normalizeSeries s"])
qed

lemma pointsNeededForBasis_pos: "0 < pointsNeededForBasis b"
  by (cases b) simp_all

lemma cagr_normal:
  assumes "isFinite a" "isFinite b"
  shows "cagr a b (Math_max (Fin 1) x) =
     (if js_lt (Fin 0) a \<and> js_lt (Fin 0) b
      then js_sub (Math_pow (js_div b a) (js_div (Fin 1) (Math_max (Fin 1) x))) (Fin 1)
      else Fin 0)"
  using assms by (cases a; cases b) (auto simp: cagr_def Math_max_one_not_le_zero js_le_Fin)

lemma computeGrowthByPoints_normalized:
  assumes "0 < n"
  shows "computeGrowthByPoints (normalizeSeries s) n =
     (if length (normalizeSeries s) < n then Inr None
      else Inr (Some (growthOf (normalizeSeries s) n)))"
proof (cases "length (normalizeSeries s) < n")
  case True
  then show ?thesis by (simp add: computeGrowthByPoints_def normalizeSeries_idem)
next
  case False
  let ?t = "normalizeSeries s"
  from False assms have ne: "?t \<noteq> []" by auto
  have l: "?t ! (length ?t - Suc 0) = last ?t" using ne by (simp add: last_conv_nth)
  have "last ?t \<in> set ?t" using ne by simp
  then have fe: "isFinite (p_val (last ?t))" by (rule normalizeSeries_finite)
  have "?t ! (length ?t - n) \<in> set ?t" using ne assms by simp
  then have fs: "isFinite (p_val (?t ! (length ?t - n)))" by (rule normalizeSeries_finite)
  show ?thesis using False assms
    by (simp add: computeGrowthByPoints_def normalizeSeries_idem l growthOf_def Let_def
        cagr_normal[OF fs fe])
qed

text \<open>
  \<^verbatim>\<open>calculateRule1\<close> with the growth computation resolved: it never throws, and its three
  outcomes are decided by the normalized EPS series, the P/E and the length of the
  normalized basis series.
\<close>

lemma calculateRule1_unfold:
  "calculateRule1 inputs knobs =
     (let b = growthBasis knobs;
          n = pointsNeededForBasis b;
          t = normalizeSeries (basisSeriesFor inputs b)
      in if normalizeSeries (eps inputs) = [] then Inr Null
         else case historicPeRatio inputs of
           None \<Rightarrow> Inr Null
         | Some pe \<Rightarrow>
             if \<not> isFinite pe \<or> js_le pe (Fin 0) then Inr Null
             else if length t < n then
               Inr (Failure \<lparr>
                 error_message =
                   ''Not enough data to compute '' @ growthBasisLabel b @ '' (need '' @
                   showNat n @ '' annual points, have '' @ showNat (length t) @ '')'',
                 error_growthBasis = b,
                 error_pointsNeeded = n,
                 error_pointsAvailable = length t \<rparr>)
             else
               let g = growthOf t n;
                   cg = Math_min (analystGrowth knobs) (g_growth g);
                   fv = js_mul (js_mul (p_val (last (normalizeSeries (eps inputs)))) pe)
                          (Math_pow (js_add (Fin 1) cg) (years knobs));
                   sp = js_div fv (Math_pow (js_add (Fin 1) (desiredReturn knobs)) (years knobs));
                   mf = Math_max (Fin 0)
                          (Math_min (Fin 1)
                            (js_div (js_sub (Fin 100) (marginOfSafetyPercent knobs)) (Fin 100)))
               in Inr (Result \<lparr>
                    latestEps = p_val (last (normalizeSeries (eps inputs))),
                    basis = \<lparr>
                      key = b, label = growthBasisLabel b, pointsUsed = n,
                      yearsActual = g_yearsActual g,
                      startEnd = p_end (g_start g), endEnd = p_end (g_end g),
                      startVal = p_val (g_start g), endVal = p_val (g_end g),
                      growth = g_growth g \<rparr>,
                    chosenGrowth = cg,
                    historicPeUsed = pe,
                    futureValue = fv,
                    stickerPrice = sp,
                    stickerPriceWithMOS = js_mul sp mf,
                    currentPrice = latestPriceUSD inputs \<rparr>))"
proof -
  have bs: "(if growthBasis knobs = bvps_5y \<or> growthBasis knobs = bvps_10y
               then bookValuePerShareUSD inputs
             else if growthBasis knobs = fcf_5y \<or> growthBasis knobs = fcf_10y
               then freeCashFlowUSD inputs
             else eps inputs) = basisSeriesFor inputs (growthBasis knobs)"
    by (simp add: basisSeriesFor_def)
  have l: "normalizeSeries (eps inputs) \<noteq> [] \<Longrightarrow>
      normalizeSeries (eps inputs) ! (length (normalizeSeries (eps inputs)) - Suc 0) =
      last (normalizeSeries (eps inputs))"
    by (simp add: last_conv_nth)
  show ?thesis
    unfolding calculateRule1_def Let_def bs
      computeGrowthByPoints_normalized[OF pointsNeededForBasis_pos]
    by (simp add: l split: option.splits)
qed

subsection \<open>Example evaluations\<close>

lemma normalizeSeries_sixPoints: "normalizeSeries sixPoints = sixPoints"
  by (simp add: normalizeSeries_def sixPoints_def mkSeries_def)

lemma normalizeSeries_ninePoints: "normalizeSeries ninePoints = ninePoints"
  by (simp add: normalizeSeries_def ninePoints_def mkSeries_def)

lemma normalizeSeries_tenPoints: "normalizeSeries tenPoints = tenPoints"
  by (simp add: normalizeSeries_def tenPoints_def ninePoints_def mkSeries_def)

lemma length_ninePoints: "length ninePoints = 9" by (simp add: ninePoints_def mkSeries_def)
lemma length_sixPoints: "length sixPoints = 6" by (simp add: sixPoints_def mkSeries_def)
lemma examples_nonempty: "ninePoints \<noteq> []" "tenPoints \<noteq> []" using length_ninePoints by (auto simp: tenPoints_def)
lemma length_tenPoints: "length tenPoints = 10" by (simp add: tenPoints_def ninePoints_def mkSeries_def)

subsection \<open>The three outcomes\<close>

text \<open>
  Claim C1, as the code has it. \<^verbatim>\<open>calculateRule1\<close> never throws and returns exactly one
  of three outcomes. It returns \<^verbatim>\<open>null\<close> when the normalized EPS series (its points of
  finite value) is empty, or the historic P/E is missing, not finite or not positive.
  Otherwise it returns a failure carrying the basis key, the points needed (6 for a
  5-year basis, 10 for a 10-year basis) and the points available when the normalized
  basis series has fewer points than needed, and a result when it has enough: with 10
  points needed, 9 points give the failure and 10 give a result.
\<close>

theorem calculateRule1_outcomes:
  "(let b = growthBasis knobs;
        n = pointsNeededForBasis b;
        t = normalizeSeries (basisSeriesFor inputs b)
    in n = (if b \<in> {bvps_5y, fcf_5y, eps_5y} then 6 else 10) \<and>
       (cannotAttempt inputs \<longrightarrow> calculateRule1 inputs knobs = Inr Null) \<and>
       (\<not> cannotAttempt inputs \<and> length t < n \<longrightarrow>
          (\<exists>f. calculateRule1 inputs knobs = Inr (Failure f) \<and> error_growthBasis f = b \<and>
               error_pointsNeeded f = n \<and> error_pointsAvailable f = length t)) \<and>
       (\<not> cannotAttempt inputs \<and> n \<le> length t \<longrightarrow>
          (\<exists>r. calculateRule1 inputs knobs = Inr (Result r))))"
proof -
  have "pointsNeededForBasis (growthBasis knobs) =
      (if growthBasis knobs \<in> {bvps_5y, fcf_5y, eps_5y} then 6 else 10)"
    by (cases "growthBasis knobs") simp_all
  then show ?thesis
    by (auto simp: calculateRule1_unfold cannotAttempt_def Let_def split: option.splits)
qed

theorem calculateRule1_outcomes_witness:
  "(\<exists>f. calculateRule1 (inputsOf ninePoints (Some (Fin 20))) (knobsOf eps_10y (Fin 0.12) (Fin 0.15) (Fin 50))
      = Inr (Failure f) \<and> error_growthBasis f = eps_10y \<and> error_pointsNeeded f = 10 \<and>
      error_pointsAvailable f = 9) \<and>
   (\<exists>r. calculateRule1 (inputsOf tenPoints (Some (Fin 20))) (knobsOf eps_10y (Fin 0.12) (Fin 0.15) (Fin 50))
      = Inr (Result r)) \<and>
   calculateRule1 (inputsOf [] (Some (Fin 20))) (knobsOf eps_10y (Fin 0.12) (Fin 0.15) (Fin 50)) = Inr Null \<and>
   calculateRule1 (inputsOf tenPoints None) (knobsOf eps_10y (Fin 0.12) (Fin 0.15) (Fin 50)) = Inr Null"
  using calculateRule1_outcomes[of "knobsOf eps_10y (Fin 0.12) (Fin 0.15) (Fin 50)" "inputsOf ninePoints (Some (Fin 20))"]
    calculateRule1_outcomes[of "knobsOf eps_10y (Fin 0.12) (Fin 0.15) (Fin 50)" "inputsOf tenPoints (Some (Fin 20))"]
    calculateRule1_outcomes[of "knobsOf eps_10y (Fin 0.12) (Fin 0.15) (Fin 50)" "inputsOf [] (Some (Fin 20))"]
    calculateRule1_outcomes[of "knobsOf eps_10y (Fin 0.12) (Fin 0.15) (Fin 50)" "inputsOf tenPoints None"]
  by (simp add: cannotAttempt_def inputsOf_def knobsOf_def basisSeriesFor_def normalizeSeries_ninePoints normalizeSeries_tenPoints length_ninePoints length_tenPoints examples_nonempty js_le_Fin
      normalizeSeries_def[of "[]"])

text \<open>
  The EPS series need not be empty, nor the P/E missing or non-positive, for \<^verbatim>\<open>null\<close>:
  an EPS series whose only value is NaN, and an infinite P/E, both give \<^verbatim>\<open>null\<close>
  although the basis series has its six points.
\<close>

theorem calculateRule1_outcomes_counterexample:
  "eps (inputsOf (mkSeries [(''2020-12-31'', NaN)]) (Some (Fin 20))) \<noteq> [] \<and>
   historicPeRatio (inputsOf (mkSeries [(''2020-12-31'', NaN)]) (Some (Fin 20))) = Some (Fin 20) \<and>
   js_lt (Fin 0) (Fin 20) \<and>
   pointsNeededForBasis bvps_5y \<le>
     length (normalizeSeries
       (bookValuePerShareUSD (inputsOf (mkSeries [(''2020-12-31'', NaN)]) (Some (Fin 20))))) \<and>
   calculateRule1 (inputsOf (mkSeries [(''2020-12-31'', NaN)]) (Some (Fin 20)))
     (knobsOf bvps_5y (Fin 0.12) (Fin 0.15) (Fin 50)) = Inr Null \<and>
   eps (inputsOf sixPoints (Some PInf)) \<noteq> [] \<and>
   historicPeRatio (inputsOf sixPoints (Some PInf)) = Some PInf \<and>
   js_lt (Fin 0) PInf \<and>
   pointsNeededForBasis eps_5y \<le> length (normalizeSeries (eps (inputsOf sixPoints (Some PInf)))) \<and>
   calculateRule1 (inputsOf sixPoints (Some PInf))
     (knobsOf eps_5y (Fin 0.12) (Fin 0.15) (Fin 50)) = Inr Null"
proof -
  have "sixPoints \<noteq> []" using length_sixPoints by auto
  then show ?thesis
    by (simp add: calculateRule1_unfold inputsOf_def knobsOf_def mkSeries_def
        normalizeSeries_sixPoints length_sixPoints normalizeSeries_def[of "[_]"])
qed

subsection \<open>The reported growth\<close>

lemma fin_pow_pos: "0 < b \<Longrightarrow> fin_pow b e = b powr e"
  unfolding fin_pow_def isInteger_def
  by (metis less_imp_le less_irrefl powr_real_of_int')

lemma Math_pow_pos: "0 < b \<Longrightarrow> e \<noteq> 0 \<Longrightarrow> Math_pow (Fin b) (Fin e) = Fin (b powr e)"
  by (simp add: Math_pow_def fin_pow_pos)


lemma Math_max_Fin: "Math_max (Fin a) (Fin b) = Fin (max a b)"
  by (auto simp: Math_max_def)

lemma Math_min_Fin: "Math_min (Fin a) (Fin b) = Fin (min a b)"
  by (auto simp: Math_min_def)

lemma calculateRule1_ResultD:
  assumes "calculateRule1 inputs knobs = Inr (Result r)"
  shows "\<exists>pe. historicPeRatio inputs = Some pe \<and> isFinite pe \<and> js_lt (Fin 0) pe \<and>
     normalizeSeries (eps inputs) \<noteq> [] \<and>
     pointsNeededForBasis (growthBasis knobs)
       \<le> length (normalizeSeries (basisSeriesFor inputs (growthBasis knobs))) \<and>
     latestEps r = p_val (last (normalizeSeries (eps inputs))) \<and>
     historicPeUsed r = pe \<and>
     key (basis r) = growthBasis knobs \<and>
     pointsUsed (basis r) = pointsNeededForBasis (growthBasis knobs) \<and>
     yearsActual (basis r) = g_yearsActual (growthOf (normalizeSeries (basisSeriesFor inputs (growthBasis knobs))) (pointsNeededForBasis (growthBasis knobs))) \<and>
     startEnd (basis r) = p_end (g_start (growthOf (normalizeSeries (basisSeriesFor inputs (growthBasis knobs))) (pointsNeededForBasis (growthBasis knobs)))) \<and>
     endEnd (basis r) = p_end (g_end (growthOf (normalizeSeries (basisSeriesFor inputs (growthBasis knobs))) (pointsNeededForBasis (growthBasis knobs)))) \<and>
     startVal (basis r) = p_val (g_start (growthOf (normalizeSeries (basisSeriesFor inputs (growthBasis knobs))) (pointsNeededForBasis (growthBasis knobs)))) \<and>
     endVal (basis r) = p_val (g_end (growthOf (normalizeSeries (basisSeriesFor inputs (growthBasis knobs))) (pointsNeededForBasis (growthBasis knobs)))) \<and>
     growth (basis r) = g_growth (growthOf (normalizeSeries (basisSeriesFor inputs (growthBasis knobs))) (pointsNeededForBasis (growthBasis knobs))) \<and>
     chosenGrowth r = Math_min (analystGrowth knobs) (growth (basis r)) \<and>
     futureValue r = js_mul (js_mul (latestEps r) (historicPeUsed r))
        (Math_pow (js_add (Fin 1) (chosenGrowth r)) (years knobs)) \<and>
     stickerPrice r = js_div (futureValue r)
        (Math_pow (js_add (Fin 1) (desiredReturn knobs)) (years knobs)) \<and>
     stickerPriceWithMOS r = js_mul (stickerPrice r)
        (Math_max (Fin 0) (Math_min (Fin 1)
           (js_div (js_sub (Fin 100) (marginOfSafetyPercent knobs)) (Fin 100)))) \<and>
     currentPrice r = latestPriceUSD inputs"
  using assms unfolding calculateRule1_unfold Let_def
  by (auto split: if_splits option.splits simp: not_js_le_zero_iff)


lemma fifth_root_bounds: "1.1486 < (2::real) powr (1 / 5)" "(2::real) powr (1 / 5) < 1.1488"
proof -
  have r: "(x ^ 5) powr (1 / 5) = x" if "0 < x" for x :: real
  proof -
    have "(x ^ 5) powr (1 / 5) = (x powr 5) powr (1 / 5)" using that by simp
    also have "\<dots> = x powr 1" by (simp only: powr_powr) simp
    finally show ?thesis using that by simp
  qed
  have "((1.1486::real) ^ 5) powr (1 / 5) < 2 powr (1 / 5)"
    by (rule powr_less_mono2) (simp_all add: power_def)
  then show "1.1486 < (2::real) powr (1 / 5)" by (simp add: r)
  have "2 powr (1 / 5) < ((1.1488::real) ^ 5) powr (1 / 5)"
    by (rule powr_less_mono2) (simp_all add: power_def)
  then show "(2::real) powr (1 / 5) < 1.1488" by (simp add: r)
qed

lemma yearOf_examples:
  "yearOf ''2015-12-31'' = Fin 2015" "yearOf ''2020-12-31'' = Fin 2020"
  by (simp_all add: yearOf_def Number_def trim_def isWhiteSpace_def nonDecimal_def
      unsignedDecimal_def isDigitOf_def digitValue_def exponentPart_def digitsValue_def)


lemma sixPoints_Result:
  "\<exists>r. calculateRule1 (inputsOf sixPoints (Some (Fin 20))) (knobsOf eps_5y g ret mos) = Inr (Result r)"
  by (simp add: calculateRule1_unfold inputsOf_def knobsOf_def basisSeriesFor_def normalizeSeries_sixPoints length_sixPoints js_le_Fin Let_def)
    (simp add: sixPoints_def mkSeries_def)



subsection \<open>The chosen growth and the prices\<close>

lemma Math_pow_pos': "0 < b \<Longrightarrow> Math_pow (Fin b) (Fin e) = Fin (b powr e)"
  by (cases "e = 0") (simp_all add: Math_pow_pos, simp add: Math_pow_def)

lemma Math_min_le:
  "a \<noteq> NaN \<Longrightarrow> b \<noteq> NaN \<Longrightarrow> js_le (Math_min a b) a \<and> js_le (Math_min a b) b"
  by (cases a; cases b) (auto simp: Math_min_def js_le_def)

lemma normalizeSeries_sameDatePoints: "normalizeSeries sameDatePoints = sameDatePoints"
  by (simp add: normalizeSeries_def sameDatePoints_def mkSeries_def)
lemma length_sameDatePoints: "length sameDatePoints = 6" by (simp add: sameDatePoints_def mkSeries_def)

lemma sixPoints_growthOf:
  "growthOf sixPoints 6 =
     \<lparr> g_start = \<lparr> p_end = ''2015-12-31'', p_val = Fin 100 \<rparr>,
       g_end = \<lparr> p_end = ''2020-12-31'', p_val = Fin 200 \<rparr>,
       g_yearsActual = Fin 5, g_growth = Fin (2 powr (1 / 5) - 1) \<rparr>"
  by (simp add: growthOf_def sixPoints_def mkSeries_def yearOf_examples js_sub_def Math_max_Fin
      Math_pow_pos)

lemma sixPoints_calc:
  "calculateRule1 (inputsOf sixPoints (Some (Fin 20))) (knobsOf eps_5y g ret mos) =
     Inr (Result r) \<Longrightarrow>
   latestEps r = Fin 200 \<and> historicPeUsed r = Fin 20 \<and>
   growth (basis r) = Fin (2 powr (1 / 5) - 1) \<and>
   chosenGrowth r = Math_min g (Fin (2 powr (1 / 5) - 1))"
  by (drule calculateRule1_ResultD)
    (auto simp: inputsOf_def knobsOf_def basisSeriesFor_def normalizeSeries_sixPoints sixPoints_growthOf,
     simp add: sixPoints_def mkSeries_def)

text \<open>
  Claim C3, as the code has it. In every result the chosen growth is
  \<^verbatim>\<open>Math.min(analystGrowth, basisGrowth)\<close>; when neither of the two is NaN it is less
  than or equal to both, and on finite numbers it is their minimum.
\<close>

theorem chosenGrowth_min:
  "calculateRule1 inputs knobs = Inr (Result r) \<Longrightarrow>
   chosenGrowth r = Math_min (analystGrowth knobs) (growth (basis r)) \<and>
   (analystGrowth knobs \<noteq> NaN \<and> growth (basis r) \<noteq> NaN \<longrightarrow>
      js_le (chosenGrowth r) (analystGrowth knobs) \<and>
      js_le (chosenGrowth r) (growth (basis r))) \<and>
   (\<forall>a g. analystGrowth knobs = Fin a \<and> growth (basis r) = Fin g \<longrightarrow>
      chosenGrowth r = Fin (min a g))"
proof -
  assume "calculateRule1 inputs knobs = Inr (Result r)"
  from calculateRule1_ResultD[OF this]
  have "chosenGrowth r = Math_min (analystGrowth knobs) (growth (basis r))" by blast
  then show ?thesis by (auto simp: Math_min_le Math_min_Fin)
qed

theorem chosenGrowth_min_witness:
  "\<exists>r. calculateRule1 (inputsOf sixPoints (Some (Fin 20)))
          (knobsOf eps_5y (Fin 0.12) (Fin 0.15) (Fin 50)) = Inr (Result r) \<and>
     chosenGrowth r = Fin 0.12 \<and>
     js_le (chosenGrowth r) (Fin 0.12) \<and> js_le (chosenGrowth r) (growth (basis r))"
proof -
  obtain r where r: "calculateRule1 (inputsOf sixPoints (Some (Fin 20)))
            (knobsOf eps_5y (Fin 0.12) (Fin 0.15) (Fin 50)) = Inr (Result r)"
    using sixPoints_Result by blast
  have g: "growth (basis r) = Fin (2 powr (1 / 5) - 1)"
    using sixPoints_calc[OF r] by simp
  have a: "analystGrowth (knobsOf eps_5y (Fin 0.12) (Fin 0.15) (Fin 50)) = Fin 0.12"
    by (simp add: knobsOf_def)
  have m: "(0.12::real) \<le> 2 powr (1 / 5) - 1"
    using fifth_root_bounds by simp
  from chosenGrowth_min[OF r] have "chosenGrowth r = Fin 0.12 \<and>
     js_le (chosenGrowth r) (Fin 0.12) \<and> js_le (chosenGrowth r) (growth (basis r))"
    unfolding a g using m by (simp add: Math_min_Fin js_le_Fin min_def)
  with r show ?thesis by blast
qed

text \<open>With an analyst growth of NaN the chosen growth is NaN, which is below neither input.\<close>

theorem chosenGrowth_min_counterexample:
  "(case calculateRule1 (inputsOf sixPoints (Some (Fin 20)))
           (knobsOf eps_5y NaN (Fin 0.15) (Fin 50)) of
      Inr (Result r) \<Rightarrow>
        chosenGrowth r = NaN \<and>
        \<not> js_le (chosenGrowth r) (analystGrowth (knobsOf eps_5y NaN (Fin 0.15) (Fin 50))) \<and>
        \<not> js_le (chosenGrowth r) (growth (basis r))
    | _ \<Rightarrow> False)"
proof -
  obtain r where r: "calculateRule1 (inputsOf sixPoints (Some (Fin 20)))
            (knobsOf eps_5y NaN (Fin 0.15) (Fin 50)) = Inr (Result r)"
    using sixPoints_Result by blast
  from sixPoints_calc[OF r] have "chosenGrowth r = NaN" by (simp add: Math_min_def)
  then show ?thesis unfolding r by (simp add: js_le_def)
qed

text \<open>
  Claim C4, as the code has it. In every result the future value is
  \<^verbatim>\<open>latestEps * pe * Math.pow(1 + chosenGrowth, years)\<close>, the sticker price is the
  future value divided by \<^verbatim>\<open>Math.pow(1 + desiredReturn, years)\<close>, and the price with
  margin of safety is the sticker price times the factor
  \<^verbatim>\<open>Math.max(0, Math.min(1, (100 - mos) / 100))\<close>; on finite numbers with growth and
  return above -1 these are the real formulas. With a margin of 150 the factor is 0, and
  the price with margin is 0 when the sticker price is finite and NaN when it is not:
  never negative.
\<close>

theorem sticker_prices:
  "calculateRule1 inputs knobs = Inr (Result r) \<Longrightarrow>
   (let mosFactor =
          Math_max (Fin 0)
            (Math_min (Fin 1)
              (js_div (js_sub (Fin 100) (marginOfSafetyPercent knobs)) (Fin 100)))
    in latestEps r = p_val (last (normalizeSeries (eps inputs))) \<and>
       historicPeRatio inputs = Some (historicPeUsed r) \<and>
       futureValue r =
         js_mul (js_mul (latestEps r) (historicPeUsed r))
           (Math_pow (js_add (Fin 1) (chosenGrowth r)) (years knobs)) \<and>
       stickerPrice r =
         js_div (futureValue r) (Math_pow (js_add (Fin 1) (desiredReturn knobs)) (years knobs)) \<and>
       stickerPriceWithMOS r = js_mul (stickerPrice r) mosFactor \<and>
       (\<forall>e p c d n.
          latestEps r = Fin e \<and> historicPeUsed r = Fin p \<and> chosenGrowth r = Fin c \<and>
          desiredReturn knobs = Fin d \<and> years knobs = Fin n \<and> - 1 < c \<and> - 1 < d \<longrightarrow>
          futureValue r = Fin (e * p * (1 + c) powr n) \<and>
          stickerPrice r = Fin (e * p * (1 + c) powr n / (1 + d) powr n)) \<and>
       (\<forall>m. marginOfSafetyPercent knobs = Fin m \<longrightarrow>
          mosFactor = Fin (max 0 (min 1 ((100 - m) / 100)))) \<and>
       (marginOfSafetyPercent knobs = Fin 150 \<longrightarrow>
          mosFactor = Fin 0 \<and>
          (isFinite (stickerPrice r) \<longrightarrow> stickerPriceWithMOS r = Fin 0) \<and>
          (\<not> isFinite (stickerPrice r) \<longrightarrow> stickerPriceWithMOS r = NaN) \<and>
          \<not> js_lt (stickerPriceWithMOS r) (Fin 0)))"
proof -
  assume "calculateRule1 inputs knobs = Inr (Result r)"
  from calculateRule1_ResultD[OF this]
  have 1: "latestEps r = p_val (last (normalizeSeries (eps inputs)))"
    "historicPeRatio inputs = Some (historicPeUsed r)"
    "futureValue r =
         js_mul (js_mul (latestEps r) (historicPeUsed r))
           (Math_pow (js_add (Fin 1) (chosenGrowth r)) (years knobs))"
    "stickerPrice r =
         js_div (futureValue r) (Math_pow (js_add (Fin 1) (desiredReturn knobs)) (years knobs))"
    "stickerPriceWithMOS r = js_mul (stickerPrice r)
        (Math_max (Fin 0) (Math_min (Fin 1)
           (js_div (js_sub (Fin 100) (marginOfSafetyPercent knobs)) (Fin 100))))"
    by auto
  have 2: "\<forall>e p c d n.
          latestEps r = Fin e \<and> historicPeUsed r = Fin p \<and> chosenGrowth r = Fin c \<and>
          desiredReturn knobs = Fin d \<and> years knobs = Fin n \<and> - 1 < c \<and> - 1 < d \<longrightarrow>
          futureValue r = Fin (e * p * (1 + c) powr n) \<and>
          stickerPrice r = Fin (e * p * (1 + c) powr n / (1 + d) powr n)"
  proof (intro allI impI, elim conjE)
    fix e p c d n
    assume that: "latestEps r = Fin e" "historicPeUsed r = Fin p" "chosenGrowth r = Fin c"
       "desiredReturn knobs = Fin d" "years knobs = Fin n" and c: "- 1 < c" and d: "- 1 < d"
    have "0 < 1 + c" "0 < 1 + d" using c d by simp_all
    then show "futureValue r = Fin (e * p * (1 + c) powr n) \<and>
          stickerPrice r = Fin (e * p * (1 + c) powr n / (1 + d) powr n)"
      unfolding 1(4) 1(3) that by (simp add: Math_pow_pos')
  qed
  have 3: "\<forall>m. marginOfSafetyPercent knobs = Fin m \<longrightarrow>
      Math_max (Fin 0) (Math_min (Fin 1)
           (js_div (js_sub (Fin 100) (marginOfSafetyPercent knobs)) (Fin 100)))
         = Fin (max 0 (min 1 ((100 - m) / 100)))"
    by (simp add: js_sub_def Math_min_Fin Math_max_Fin)
  have 4: "marginOfSafetyPercent knobs = Fin 150 \<longrightarrow>
          Math_max (Fin 0) (Math_min (Fin 1)
           (js_div (js_sub (Fin 100) (marginOfSafetyPercent knobs)) (Fin 100))) = Fin 0 \<and>
          (isFinite (stickerPrice r) \<longrightarrow> stickerPriceWithMOS r = Fin 0) \<and>
          (\<not> isFinite (stickerPrice r) \<longrightarrow> stickerPriceWithMOS r = NaN) \<and>
          \<not> js_lt (stickerPriceWithMOS r) (Fin 0)"
  proof
    assume m: "marginOfSafetyPercent knobs = Fin 150"
    have f: "Math_max (Fin 0) (Math_min (Fin 1)
           (js_div (js_sub (Fin 100) (marginOfSafetyPercent knobs)) (Fin 100))) = Fin 0"
      unfolding m by (simp add: js_sub_def Math_min_Fin Math_max_Fin)
    have "stickerPriceWithMOS r = js_mul (stickerPrice r) (Fin 0)"
      using 1(5) f by simp
    then have "(isFinite (stickerPrice r) \<longrightarrow> stickerPriceWithMOS r = Fin 0) \<and>
          (\<not> isFinite (stickerPrice r) \<longrightarrow> stickerPriceWithMOS r = NaN) \<and>
          \<not> js_lt (stickerPriceWithMOS r) (Fin 0)"
      by (cases "stickerPrice r") simp_all
    with f show "Math_max (Fin 0) (Math_min (Fin 1)
           (js_div (js_sub (Fin 100) (marginOfSafetyPercent knobs)) (Fin 100))) = Fin 0 \<and>
          (isFinite (stickerPrice r) \<longrightarrow> stickerPriceWithMOS r = Fin 0) \<and>
          (\<not> isFinite (stickerPrice r) \<longrightarrow> stickerPriceWithMOS r = NaN) \<and>
          \<not> js_lt (stickerPriceWithMOS r) (Fin 0)" by simp
  qed
  show ?thesis
    unfolding Let_def by (intro conjI) (rule 1 2 3 4)+
qed

theorem sticker_prices_witness:
  "\<exists>r. calculateRule1 (inputsOf sixPoints (Some (Fin 20)))
          (knobsOf eps_5y (Fin 0.12) (Fin 0.15) (Fin 150)) = Inr (Result r) \<and>
     futureValue r = Fin (200 * 20 * 1.12 ^ 10) \<and>
     stickerPrice r = Fin (200 * 20 * 1.12 ^ 10 / 1.15 ^ 10) \<and>
     stickerPriceWithMOS r = Fin 0"
proof -
  obtain r where r: "calculateRule1 (inputsOf sixPoints (Some (Fin 20)))
            (knobsOf eps_5y (Fin 0.12) (Fin 0.15) (Fin 150)) = Inr (Result r)"
    using sixPoints_Result by blast
  have m: "(0.12::real) \<le> 2 powr (1 / 5) - 1"
    using fifth_root_bounds by simp
  have c: "latestEps r = Fin 200" "historicPeUsed r = Fin 20" "chosenGrowth r = Fin 0.12"
    using sixPoints_calc[OF r] m by (simp_all add: Math_min_Fin min_def)
  have k: "desiredReturn (knobsOf eps_5y (Fin 0.12) (Fin 0.15) (Fin 150)) = Fin 0.15"
    "years (knobsOf eps_5y (Fin 0.12) (Fin 0.15) (Fin 150)) = Fin 10"
    "marginOfSafetyPercent (knobsOf eps_5y (Fin 0.12) (Fin 0.15) (Fin 150)) = Fin 150"
    by (simp_all add: knobsOf_def)
  from sticker_prices[OF r] have "futureValue r = Fin (200 * 20 * 1.12 ^ 10) \<and>
     stickerPrice r = Fin (200 * 20 * 1.12 ^ 10 / 1.15 ^ 10) \<and>
     stickerPriceWithMOS r = Fin 0"
    unfolding Let_def c k by (simp add: Math_pow_pos')
  with r show ?thesis by blast
qed

text \<open>
  With a desired return of -1 the sticker price is a division by zero, and the price
  with a margin of 150 is infinity times 0: NaN, not 0.
\<close>

theorem sticker_prices_counterexample:
  "(case calculateRule1 (inputsOf sixPoints (Some (Fin 20)))
           (knobsOf eps_5y (Fin 0.12) (Fin (- 1)) (Fin 150)) of
      Inr (Result r) \<Rightarrow>
        marginOfSafetyPercent (knobsOf eps_5y (Fin 0.12) (Fin (- 1)) (Fin 150)) = Fin 150 \<and>
        stickerPrice r = PInf \<and> stickerPriceWithMOS r = NaN
    | _ \<Rightarrow> False)"
proof -
  obtain r where r: "calculateRule1 (inputsOf sixPoints (Some (Fin 20)))
            (knobsOf eps_5y (Fin 0.12) (Fin (- 1)) (Fin 150)) = Inr (Result r)"
    using sixPoints_Result by blast
  have m: "(0.12::real) \<le> 2 powr (1 / 5) - 1"
    using fifth_root_bounds by simp
  have c: "latestEps r = Fin 200" "historicPeUsed r = Fin 20" "chosenGrowth r = Fin 0.12"
    using sixPoints_calc[OF r] m by (simp_all add: Math_min_Fin min_def)
  have k: "desiredReturn (knobsOf eps_5y (Fin 0.12) (Fin (- 1)) (Fin 150)) = Fin (- 1)"
    "years (knobsOf eps_5y (Fin 0.12) (Fin (- 1)) (Fin 150)) = Fin 10"
    "marginOfSafetyPercent (knobsOf eps_5y (Fin 0.12) (Fin (- 1)) (Fin 150)) = Fin 150"
    by (simp_all add: knobsOf_def)
  from calculateRule1_ResultD[OF r]
  have fv: "futureValue r = js_mul (js_mul (latestEps r) (historicPeUsed r))
        (Math_pow (js_add (Fin 1) (chosenGrowth r)) (Fin 10))"
    and sp: "stickerPrice r = js_div (futureValue r) (Math_pow (js_add (Fin 1) (Fin (- 1))) (Fin 10))"
    and sm: "stickerPriceWithMOS r = js_mul (stickerPrice r)
        (Math_max (Fin 0) (Math_min (Fin 1) (js_div (js_sub (Fin 100) (Fin 150)) (Fin 100))))"
    unfolding k by blast+
  have fv': "futureValue r = Fin (4000 * 1.12 ^ 10)"
    unfolding fv c by (simp add: Math_pow_pos')
  have z: "Math_pow (js_add (Fin 1) (Fin (- 1))) (Fin 10) = Fin 0"
    by (simp add: Math_pow_def)
  have sp': "stickerPrice r = PInf"
    unfolding sp z fv' by simp
  have "stickerPriceWithMOS r = NaN"
    unfolding sm sp' by (simp add: js_sub_def Math_min_Fin Math_max_Fin)
  with sp' show ?thesis unfolding r by (simp add: knobsOf_def)
qed

subsection \<open>Duplicate end dates in the valuation engine\<close>

lemma sameDatePoints_growthOf:
  "growthOf sameDatePoints 6 =
     \<lparr> g_start = \<lparr> p_end = ''2020-12-31'', p_val = Fin 1 \<rparr>,
       g_end = \<lparr> p_end = ''2020-12-31'', p_val = Fin 6 \<rparr>,
       g_yearsActual = Fin 1, g_growth = Fin 5 \<rparr>"
  by (simp add: growthOf_def Let_def sameDatePoints_def mkSeries_def yearOf_examples js_sub_def
      Math_max_Fin Math_pow_pos)

text \<open>
  Claim C10. The normalisation of the valuation engine sorts the points of finite value
  by end date and keeps every one of them, duplicates included (the same multiset). Six
  points that share one end date count as six: as the six
  points available of a failure when ten are needed, and as the six points used of a
  result, whose start and end then carry the same date.
\<close>

theorem duplicates_counted:
  "(\<forall>series.
      mset (normalizeSeries series) = mset (filter (\<lambda>p. isFinite (p_val p)) series) \<and>
      sorted (map p_end (normalizeSeries series))) \<and>
   length (remdups (map p_end sameDatePoints)) = 1 \<and>
   (\<exists>f. calculateRule1 (inputsOf sameDatePoints (Some (Fin 20)))
          (knobsOf eps_10y (Fin 0.12) (Fin 0.15) (Fin 50)) = Inr (Failure f) \<and>
        error_pointsNeeded f = 10 \<and> error_pointsAvailable f = 6) \<and>
   (\<exists>r. calculateRule1 (inputsOf sameDatePoints (Some (Fin 20)))
          (knobsOf eps_5y (Fin 0.12) (Fin 0.15) (Fin 50)) = Inr (Result r) \<and>
        pointsUsed (basis r) = 6 \<and>
        startEnd (basis r) = ''2020-12-31'' \<and> endEnd (basis r) = ''2020-12-31'' \<and>
        startVal (basis r) = Fin 1 \<and> endVal (basis r) = Fin 6 \<and>
        yearsActual (basis r) = Fin 1 \<and> growth (basis r) = Fin 5)"
proof -
  have ne: "sameDatePoints \<noteq> []" using length_sameDatePoints by auto
  have 1: "\<forall>series.
      mset (normalizeSeries series) = mset (filter (\<lambda>p. isFinite (p_val p)) series) \<and>
      sorted (map p_end (normalizeSeries series))"
    by (simp add: normalizeSeries_def)
  have 2: "length (remdups (map p_end sameDatePoints)) = 1"
    by (simp add: sameDatePoints_def mkSeries_def)
  have 3: "\<exists>f. calculateRule1 (inputsOf sameDatePoints (Some (Fin 20)))
          (knobsOf eps_10y (Fin 0.12) (Fin 0.15) (Fin 50)) = Inr (Failure f) \<and>
        error_pointsNeeded f = 10 \<and> error_pointsAvailable f = 6"
    using ne by (simp add: calculateRule1_unfold inputsOf_def knobsOf_def basisSeriesFor_def
        normalizeSeries_sameDatePoints length_sameDatePoints js_le_Fin)
  have 4: "\<exists>r. calculateRule1 (inputsOf sameDatePoints (Some (Fin 20)))
          (knobsOf eps_5y (Fin 0.12) (Fin 0.15) (Fin 50)) = Inr (Result r) \<and>
        pointsUsed (basis r) = 6 \<and>
        startEnd (basis r) = ''2020-12-31'' \<and> endEnd (basis r) = ''2020-12-31'' \<and>
        startVal (basis r) = Fin 1 \<and> endVal (basis r) = Fin 6 \<and>
        yearsActual (basis r) = Fin 1 \<and> growth (basis r) = Fin 5"
    using ne by (simp add: calculateRule1_unfold inputsOf_def knobsOf_def basisSeriesFor_def
        normalizeSeries_sameDatePoints length_sameDatePoints js_le_Fin Let_def
        sameDatePoints_growthOf)
  from 1 2 3 4 show ?thesis by (intro conjI)
qed

text \<open>So a basis series with fewer distinct end dates than points needed can give a result.\<close>

theorem duplicates_counted_witness:
  "\<exists>inputs knobs r.
     calculateRule1 inputs knobs = Inr (Result r) \<and>
     length (remdups (map p_end (basisSeriesFor inputs (growthBasis knobs))))
       < pointsNeededForBasis (growthBasis knobs)"
proof -
  from duplicates_counted obtain r where
    "calculateRule1 (inputsOf sameDatePoints (Some (Fin 20)))
          (knobsOf eps_5y (Fin 0.12) (Fin 0.15) (Fin 50)) = Inr (Result r)"
    and "length (remdups (map p_end sameDatePoints)) = 1"
    by blast
  moreover have "basisSeriesFor (inputsOf sameDatePoints (Some (Fin 20)))
      (growthBasis (knobsOf eps_5y (Fin 0.12) (Fin 0.15) (Fin 50))) = sameDatePoints"
    by (simp add: basisSeriesFor_def inputsOf_def knobsOf_def)
  moreover have "pointsNeededForBasis (growthBasis (knobsOf eps_5y (Fin 0.12) (Fin 0.15) (Fin 50))) = 6"
    by (simp add: knobsOf_def)
  ultimately show ?thesis by (intro exI[of _ "inputsOf sameDatePoints (Some (Fin 20))"]
      exI[of _ "knobsOf eps_5y (Fin 0.12) (Fin 0.15) (Fin 50)"] exI[of _ r]) simp
qed

section \<open>Properties of the price history\<close>

lemma sorted_dates_mono:
  "sorted (map date h) \<Longrightarrow> i \<le> j \<Longrightarrow> j < length h \<Longrightarrow> date (h ! i) \<le> date (h ! j)"
  using sorted_nth_mono[of "map date h" i j] by simp

lemma closeLoop_sorted:
  assumes "sorted (map date h)"
  shows "0 \<le> lo \<Longrightarrow> hi < int (length h) \<Longrightarrow> lo \<le> hi + 1 \<Longrightarrow> ans = lo - 1 \<Longrightarrow>
    (\<forall>i < nat lo. date (h ! i) \<le> q) \<Longrightarrow>
    (\<forall>i. nat (hi + 1) \<le> i \<and> i < length h \<longrightarrow> \<not> date (h ! i) \<le> q) \<Longrightarrow>
    \<exists>k \<le> length h. closeLoop h q lo hi ans = Inr (int k - 1) \<and>
      (\<forall>i < k. date (h ! i) \<le> q) \<and>
      (\<forall>i. k \<le> i \<and> i < length h \<longrightarrow> \<not> date (h ! i) \<le> q)"
  using assms
proof (induction h q lo hi ans rule: closeLoop.induct)
  case (1 h q lo hi ans)
  show ?case
  proof (cases "lo \<le> hi")
    case False
    with "1.prems" have e: "hi + 1 = lo" by simp
    have "closeLoop h q lo hi ans = Inr (int (nat lo) - 1)"
      using False "1.prems" by (simp add: closeLoop.simps)
    moreover have "nat lo \<le> length h" using "1.prems" e by linarith
    ultimately show ?thesis using "1.prems" e by (intro exI[of _ "nat lo"]) auto
  next
    case True
    define mid where "mid = (lo + hi) div 2"
    have m: "lo \<le> mid" "mid \<le> hi" using True by (simp_all add: mid_def)
    then have r: "\<not> (mid < 0 \<or> int (length h) \<le> mid)" using "1.prems" by auto
    have ml: "nat mid < length h" using r by linarith
    show ?thesis
    proof (cases "date (h ! nat mid) \<le> q")
      case le: True
      have c: "closeLoop h q lo hi ans = closeLoop h q (mid + 1) hi mid"
        using True r le by (subst closeLoop.simps) (simp add: mid_def Let_def)
      have "\<forall>i < nat (mid + 1). date (h ! i) \<le> q"
      proof (intro allI impI)
        fix i assume "i < nat (mid + 1)"
        then have "i \<le> nat mid" by linarith
        from sorted_dates_mono[OF "1.prems"(7) this ml] le show "date (h ! i) \<le> q" by simp
      qed
      with "1.IH"(1)[OF True mid_def r le] "1.prems" m
      show ?thesis unfolding c by simp
    next
      case gt: False
      have c: "closeLoop h q lo hi ans = closeLoop h q lo (mid - 1) ans"
        using True r gt by (subst closeLoop.simps) (simp add: mid_def Let_def)
      have "\<forall>i. nat (mid - 1 + 1) \<le> i \<and> i < length h \<longrightarrow> \<not> date (h ! i) \<le> q"
      proof (intro allI impI notI, elim conjE)
        fix i assume "nat (mid - 1 + 1) \<le> i" "i < length h" "date (h ! i) \<le> q"
        then have "nat mid \<le> i" by simp
        from sorted_dates_mono[OF "1.prems"(7) this \<open>i < length h\<close>] \<open>date (h ! i) \<le> q\<close> gt
        show False by simp
      qed
      with "1.IH"(2)[OF True mid_def r gt] "1.prems" m
      show ?thesis unfolding c by simp
    qed
  qed
qed

lemma filter_prefix:
  assumes "k \<le> length h" "\<forall>i < k. P (h ! i)" "\<forall>i. k \<le> i \<and> i < length h \<longrightarrow> \<not> P (h ! i)"
  shows "filter P h = take k h"
proof -
  have "filter P (take k h) = take k h"
    using assms by (intro filter_True) (auto simp: in_set_conv_nth)
  moreover have "filter P (drop k h) = []"
    using assms by (auto simp: filter_empty_conv in_set_conv_nth)
  moreover have "filter P h = filter P (take k h) @ filter P (drop k h)"
    by (simp only: filter_append[symmetric] append_take_drop_id)
  ultimately show ?thesis by simp
qed

text \<open>
  On a history sorted by date the search returns without throwing, at the boundary
  between the entries on or before the date and the entries after it.
\<close>

lemma closeOnOrBefore_index:
  assumes s: "sorted (map date history)"
  shows "\<exists>k \<le> length history.
     closeOnOrBefore history isoDate =
       Inr (if k = 0 then None else Some (close (history ! (k - 1)))) \<and>
     (\<forall>i < k. date (history ! i) \<le> isoDate) \<and>
     (\<forall>i. k \<le> i \<and> i < length history \<longrightarrow> \<not> date (history ! i) \<le> isoDate)"
proof -
  have "\<exists>k \<le> length history.
      closeLoop history isoDate 0 (int (length history) - 1) (- 1) = Inr (int k - 1) \<and>
      (\<forall>i < k. date (history ! i) \<le> isoDate) \<and>
      (\<forall>i. k \<le> i \<and> i < length history \<longrightarrow> \<not> date (history ! i) \<le> isoDate)"
    by (rule closeLoop_sorted[OF s]) auto
  then obtain k where k: "k \<le> length history"
    "closeLoop history isoDate 0 (int (length history) - 1) (- 1) = Inr (int k - 1)"
    "\<forall>i < k. date (history ! i) \<le> isoDate"
    "\<forall>i. k \<le> i \<and> i < length history \<longrightarrow> \<not> date (history ! i) \<le> isoDate"
    by blast
  have "closeOnOrBefore history isoDate =
       Inr (if k = 0 then None else Some (close (history ! (k - 1))))"
    unfolding closeOnOrBefore_def k(2) by (cases k) (simp_all add: nat_diff_distrib)
  with k show ?thesis by blast
qed

text \<open>
  Claim C9. On a price history sorted ascending by date, \<^verbatim>\<open>closeOnOrBefore\<close> returns
  the close of the last of the entries whose date is on or before the query date: no
  later entry is on or before it. It returns \<^verbatim>\<open>null\<close> exactly when there is no such
  entry, the empty history included.
\<close>

theorem closeOnOrBefore_latest:
  "sorted (map date history) \<Longrightarrow>
   closeOnOrBefore history isoDate =
     Inr (case filter (\<lambda>d. date d \<le> isoDate) history of
            [] \<Rightarrow> None
          | d # ds \<Rightarrow> Some (close (last (d # ds)))) \<and>
   (closeOnOrBefore history isoDate = Inr None \<longleftrightarrow>
      \<not> (\<exists>d \<in> set history. date d \<le> isoDate)) \<and>
   (\<forall>c. closeOnOrBefore history isoDate = Inr (Some c) \<longrightarrow>
      (\<exists>i < length history. date (history ! i) \<le> isoDate \<and> c = close (history ! i) \<and>
         (\<forall>j. i < j \<and> j < length history \<longrightarrow> \<not> date (history ! j) \<le> isoDate)))"
proof -
  assume s: "sorted (map date history)"
  from closeOnOrBefore_index[OF s, of isoDate]
  obtain k where k: "k \<le> length history"
    "closeOnOrBefore history isoDate =
       Inr (if k = 0 then None else Some (close (history ! (k - 1))))"
    "\<forall>i < k. date (history ! i) \<le> isoDate"
    "\<forall>i. k \<le> i \<and> i < length history \<longrightarrow> \<not> date (history ! i) \<le> isoDate"
    by blast
  have f: "filter (\<lambda>d. date d \<le> isoDate) history = take k history"
    using filter_prefix[of k history "\<lambda>d. date d \<le> isoDate"] k by simp
  have 1: "closeOnOrBefore history isoDate =
     Inr (case filter (\<lambda>d. date d \<le> isoDate) history of
            [] \<Rightarrow> None
          | d # ds \<Rightarrow> Some (close (last (d # ds))))"
  proof (cases k)
    case 0
    then show ?thesis by (simp add: k(2) f)
  next
    case (Suc j)
    then have "take k history \<noteq> []" using k(1) by auto
    then obtain d ds where t: "take k history = d # ds" by (cases "take k history") blast+
    have "last (take k history) = history ! j"
      using Suc k(1) by (simp add: take_Suc_conv_app_nth)
    then have "last (d # ds) = history ! j" unfolding t .
    then show ?thesis
      unfolding k(2) f t using Suc by simp
  qed
  have 2: "closeOnOrBefore history isoDate = Inr None \<longleftrightarrow>
      \<not> (\<exists>d \<in> set history. date d \<le> isoDate)"
  proof -
    have "closeOnOrBefore history isoDate = Inr None \<longleftrightarrow>
        filter (\<lambda>d. date d \<le> isoDate) history = []"
      unfolding 1 by (simp split: list.splits)
    then show ?thesis by (simp add: filter_empty_conv)
  qed
  have 3: "\<forall>c. closeOnOrBefore history isoDate = Inr (Some c) \<longrightarrow>
      (\<exists>i < length history. date (history ! i) \<le> isoDate \<and> c = close (history ! i) \<and>
         (\<forall>j. i < j \<and> j < length history \<longrightarrow> \<not> date (history ! j) \<le> isoDate))"
  proof (intro allI impI)
    fix c assume "closeOnOrBefore history isoDate = Inr (Some c)"
    with k(2) have p: "0 < k" and c: "c = close (history ! (k - 1))"
      by (auto split: if_splits)
    from p k(1) have "k - 1 < length history" by simp
    moreover from p k(3) have "date (history ! (k - 1)) \<le> isoDate" by simp
    moreover have "\<forall>j. k - 1 < j \<and> j < length history \<longrightarrow> \<not> date (history ! j) \<le> isoDate"
      using k(4) by auto
    ultimately show "\<exists>i < length history. date (history ! i) \<le> isoDate \<and> c = close (history ! i) \<and>
         (\<forall>j. i < j \<and> j < length history \<longrightarrow> \<not> date (history ! j) \<le> isoDate)"
      using c by blast
  qed
  from 1 2 3 show ?thesis by (intro conjI)
qed

theorem closeOnOrBefore_latest_witness:
  "sorted (map date exHistory) \<and>
   closeOnOrBefore exHistory ''2020-01-05'' = Inr (Some (Fin 11)) \<and>
   closeOnOrBefore exHistory ''2020-01-06'' = Inr (Some (Fin 12)) \<and>
   closeOnOrBefore exHistory ''2020-01-01'' = Inr None \<and>
   closeOnOrBefore [] ''2020-01-01'' = Inr None"
proof -
  have s: "sorted (map date exHistory)" by (simp add: exHistory_def)
  have e: "sorted (map date [])" by simp
  show ?thesis
    using s closeOnOrBefore_latest[OF s, of "''2020-01-05''"]
      closeOnOrBefore_latest[OF s, of "''2020-01-06''"]
      closeOnOrBefore_latest[OF s, of "''2020-01-01''"]
      closeOnOrBefore_latest[OF e, of "''2020-01-01''"]
    by (simp add: exHistory_def)
qed

section \<open>Properties of the annual series\<close>

subsection \<open>The map of end dates\<close>

lemma map_of_mapSet: "map_of (mapSet k v m) = (map_of m)(k \<mapsto> v)"
  by (induction m) auto

lemma keys_mapSet: "fst ` set (mapSet k v m) = insert k (fst ` set m)"
proof (induction m)
  case Nil
  show ?case by simp
next
  case (Cons a m)
  obtain k' v' where a: "a = (k', v')" by (cases a)
  show ?case
  proof (cases "k = k'")
    case True
    then show ?thesis by (simp add: a)
  next
    case False
    then show ?thesis using Cons by (simp add: a insert_commute)
  qed
qed

lemma distinct_mapSet: "distinct (map fst m) \<Longrightarrow> distinct (map fst (mapSet k v m))"
proof (induction m)
  case Nil
  then show ?case by simp
next
  case (Cons a m)
  obtain k' v' where a: "a = (k', v')" by (cases a)
  have "fst ` set (mapSet k v m) = insert k (fst ` set m)" by (rule keys_mapSet)
  with Cons a show ?case by auto
qed

lemma js_lt_chain: "js_lt a b \<Longrightarrow> \<not> js_lt a c \<Longrightarrow> \<not> js_lt b c"
  by (cases a; cases b; cases c) auto

lemma js_lt_irrefl: "\<not> js_lt a a"
  by (cases a) auto

lemma byEndInv_step:
  assumes "byEndInv ps m"
  shows "byEndInv (ps @ [p]) (byEndStep m p)"
proof (cases "map_of m (p_end p)")
  case None
  then have s: "byEndStep m p = mapSet (p_end p) (p_val p) m" by (simp add: byEndStep_def)
  from None have "p_end p \<notin> p_end ` set ps"
    using assms by (metis byEndInv_def map_of_eq_None_iff)
  then have n: "\<forall>q \<in> set ps. p_end q \<noteq> p_end p" by (metis image_eqI)
  show ?thesis
    unfolding byEndInv_def s map_of_mapSet keys_mapSet
    using assms n by (auto simp: byEndInv_def distinct_mapSet js_lt_irrefl)
next
  case (Some prev)
  show ?thesis
  proof (cases "js_lt (Math_abs prev) (Math_abs (p_val p))")
    case True
    then have s: "byEndStep m p = mapSet (p_end p) (p_val p) m"
      using Some by (simp add: byEndStep_def)
    have k: "p_end p \<in> fst ` set m" using Some by (metis map_of_eq_None_iff option.distinct(1))
    have big: "\<not> js_lt (Math_abs (p_val p)) (Math_abs (p_val q))"
      if "q \<in> set ps" "p_end q = p_end p" for q
    proof -
      from assms Some that have "\<not> js_lt (Math_abs prev) (Math_abs (p_val q))"
        by (auto simp: byEndInv_def)
      with True show ?thesis by (rule js_lt_chain)
    qed
    show ?thesis
      unfolding byEndInv_def s map_of_mapSet keys_mapSet
      using assms k big by (auto simp: byEndInv_def distinct_mapSet js_lt_irrefl)
  next
    case False
    then have s: "byEndStep m p = m" using Some by (simp add: byEndStep_def)
    have k: "p_end p \<in> fst ` set m" using Some by (metis map_of_eq_None_iff option.distinct(1))
    show ?thesis
      unfolding byEndInv_def s
      using assms k Some False by (auto simp: byEndInv_def simp del: map_of_eq_Some_iff)
  qed
qed

lemma byEndInv_foldl: "byEndInv ps (foldl byEndStep [] ps)"
proof (induction ps rule: rev_induct)
  case Nil
  show ?case by (simp add: byEndInv_def)
next
  case (snoc p ps)
  then show ?case by (simp add: byEndInv_step)
qed

subsection \<open>Deduplication and sort\<close>

lemma point_eq: "\<lparr> p_end = p_end q, p_val = p_val q \<rparr> = (q :: SeriesPoint)"
  by simp

lemma mset_insertBy: "mset (insertBy cmp x xs) = add_mset x (mset xs)"
  by (induction xs) simp_all

lemma mset_sortBy: "mset (sortBy cmp xs) = mset xs"
  by (induction xs) (simp_all add: sortBy_def mset_insertBy)

lemma set_sortBy: "set (sortBy cmp xs) = set xs"
  using mset_sortBy[of cmp xs] by (metis set_mset_mset)

lemma distinct_map_sortBy: "distinct (map f (sortBy cmp xs)) = distinct (map f xs)"
proof -
  have "mset (map f (sortBy cmp xs)) = mset (map f xs)"
    by (simp add: mset_sortBy)
  then show ?thesis by (rule mset_eq_imp_distinct_iff)
qed

text \<open>Where the comparator agrees with the order of a key, the sort is the sort by that key.\<close>

lemma insertBy_insort_key:
  assumes "\<forall>y \<in> set ys. (cmp x y \<le> 0) = (f x \<le> f y)"
  shows "insertBy cmp x ys = insort_key f x ys"
  using assms by (induction ys) simp_all

lemma sortBy_sort_key:
  assumes "\<forall>x \<in> set xs. \<forall>y \<in> set xs. (cmp x y \<le> 0) = (f x \<le> f y)"
  shows "sortBy cmp xs = sort_key f xs"
  using assms
proof (induction xs)
  case Nil
  show ?case by (simp add: sortBy_def)
next
  case (Cons x xs)
  then have ih: "sortBy cmp xs = sort_key f xs" by simp
  have "insertBy cmp x (sort_key f xs) = insort_key f x (sort_key f xs)"
    by (rule insertBy_insort_key) (use Cons.prems in simp)
  moreover have "sortBy cmp (x # xs) = insertBy cmp x (sortBy cmp xs)"
    by (simp add: sortBy_def)
  ultimately show ?case by (simp add: ih)
qed

text \<open>A consistent comparator leaves the list in its order.\<close>

lemma sorted_wrt_insertBy:
  assumes total: "\<forall>a b. cmp a b \<le> 0 \<or> cmp b a \<le> 0"
    and trans: "\<forall>a b c. cmp a b \<le> 0 \<and> cmp b c \<le> 0 \<longrightarrow> cmp a c \<le> 0"
  shows "sorted_wrt (\<lambda>a b. cmp a b \<le> 0) ys \<Longrightarrow>
    sorted_wrt (\<lambda>a b. cmp a b \<le> 0) (insertBy cmp x ys)"
proof (induction ys)
  case Nil
  show ?case by simp
next
  case (Cons y ys)
  show ?case
  proof (cases "cmp x y \<le> 0")
    case True
    have "cmp x z \<le> 0" if "z \<in> set ys" for z
    proof -
      from Cons.prems that have "cmp y z \<le> 0" by simp
      with True trans show ?thesis by blast
    qed
    with True Cons.prems show ?thesis by simp
  next
    case False
    with total have yx: "cmp y x \<le> 0" by blast
    have "set (insertBy cmp x ys) = insert x (set ys)"
      using mset_insertBy[of cmp x ys] by (metis set_mset_mset set_mset_add_mset_insert)
    with False yx Cons show ?thesis by simp
  qed
qed

lemma sorted_wrt_sortBy:
  assumes "\<forall>a b. cmp a b \<le> 0 \<or> cmp b a \<le> 0"
    and "\<forall>a b c. cmp a b \<le> 0 \<and> cmp b c \<le> 0 \<longrightarrow> cmp a c \<le> 0"
  shows "sorted_wrt (\<lambda>a b. cmp a b \<le> 0) (sortBy cmp xs)"
proof (induction xs)
  case Nil
  show ?case by (simp add: sortBy_def)
next
  case (Cons x xs)
  have "sortBy cmp (x # xs) = insertBy cmp x (sortBy cmp xs)" by (simp add: sortBy_def)
  with sorted_wrt_insertBy[OF assms Cons] show ?case by simp
qed

lemma dedupAndSort_set:
  "set (dedupAndSort localeCompare ps) = (\<lambda>(e, v). \<lparr> p_end = e, p_val = v \<rparr>) ` set (foldl byEndStep [] ps)"
  by (simp add: dedupAndSort_def set_sortBy)

lemma dedupAndSort_member:
  assumes "q \<in> set (dedupAndSort localeCompare ps)"
  shows "q \<in> set ps \<and>
    (\<forall>p \<in> set ps. p_end p = p_end q \<longrightarrow> \<not> js_lt (Math_abs (p_val q)) (Math_abs (p_val p)))"
proof -
  let ?m = "foldl byEndStep [] ps"
  have inv: "byEndInv ps ?m" by (rule byEndInv_foldl)
  from assms obtain e v where ev: "(e, v) \<in> set ?m" "q = \<lparr> p_end = e, p_val = v \<rparr>"
    by (auto simp: dedupAndSort_set)
  from inv ev(1) have "map_of ?m e = Some v" by (simp add: byEndInv_def)
  with inv have "(\<exists>p \<in> set ps. p_end p = e \<and> p_val p = v) \<and>
         (\<forall>p \<in> set ps. p_end p = e \<longrightarrow> \<not> js_lt (Math_abs v) (Math_abs (p_val p)))"
    unfolding byEndInv_def by blast
  then show ?thesis unfolding ev(2) by (auto simp: point_eq)
qed

lemma dedupAndSort_ends: "p_end ` set (dedupAndSort localeCompare ps) = p_end ` set ps"
proof -
  have "p_end ` set (dedupAndSort localeCompare ps) = fst ` set (foldl byEndStep [] ps)"
    by (force simp: dedupAndSort_set)
  also have "\<dots> = p_end ` set ps" using byEndInv_foldl[of ps] by (simp add: byEndInv_def)
  finally show ?thesis .
qed

lemma dedupAndSort_empty: "dedupAndSort localeCompare ps = [] \<longleftrightarrow> ps = []"
  using dedupAndSort_ends[of localeCompare ps] by (metis image_is_empty set_empty)

lemma dedupAndSort_distinct: "distinct (map p_end (dedupAndSort localeCompare ps))"
proof -
  let ?m = "foldl byEndStep [] ps"
  let ?ys = "map (\<lambda>(e, v). \<lparr> p_end = e, p_val = v \<rparr>) ?m"
  have "map p_end ?ys = map fst ?m"
    by (simp add: case_prod_unfold)
  moreover have "distinct (map fst ?m)" using byEndInv_foldl[of ps] by (simp add: byEndInv_def)
  ultimately have "distinct (map p_end ?ys)" by (simp only:)
  then show ?thesis by (simp only: dedupAndSort_def distinct_map_sortBy)
qed

lemma dedupAndSort_ordered:
  assumes "consistentComparator localeCompare"
  shows "sorted_wrt (\<lambda>p q. localeCompare (p_end p) (p_end q) \<le> 0) (dedupAndSort localeCompare ps)"
proof -
  let ?cmp = "\<lambda>a b. localeCompare (p_end a) (p_end b)"
  let ?ys = "map (\<lambda>(e, v). \<lparr> p_end = e, p_val = v \<rparr>) (foldl byEndStep [] ps)"
  from assms have t: "\<forall>a b. ?cmp a b \<le> 0 \<or> ?cmp b a \<le> 0"
    unfolding consistentComparator_def by blast
  from assms have "\<forall>a b c. localeCompare a b \<le> 0 \<and> localeCompare b c \<le> 0 \<longrightarrow>
      localeCompare a c \<le> 0"
    unfolding consistentComparator_def by blast
  then have r: "\<forall>a b c. ?cmp a b \<le> 0 \<and> ?cmp b c \<le> 0 \<longrightarrow> ?cmp a c \<le> 0"
    by blast
  from sorted_wrt_sortBy[of ?cmp ?ys, OF t r] show ?thesis
    by (simp only: dedupAndSort_def)
qed

lemma dedupAndSort_strict:
  assumes "\<forall>p \<in> set (dedupAndSort localeCompare ps). \<forall>q \<in> set (dedupAndSort localeCompare ps).
    (localeCompare (p_end p) (p_end q) \<le> 0) = (p_end p \<le> p_end q)"
  shows "sorted_wrt (<) (map p_end (dedupAndSort localeCompare ps))"
proof -
  let ?ys = "map (\<lambda>(e, v). \<lparr> p_end = e, p_val = v \<rparr>) (foldl byEndStep [] ps)"
  have s: "set ?ys = set (dedupAndSort localeCompare ps)"
    by (simp add: dedupAndSort_def set_sortBy)
  have "sortBy (\<lambda>a b. localeCompare (p_end a) (p_end b)) ?ys = sort_key p_end ?ys"
    by (rule sortBy_sort_key) (use assms s in blast)
  then have "dedupAndSort localeCompare ps = sort_key p_end ?ys"
    by (simp only: dedupAndSort_def)
  then have "sorted (map p_end (dedupAndSort localeCompare ps))" by simp
  with dedupAndSort_distinct[of localeCompare ps] show ?thesis
    by (simp add: strict_sorted_iff)
qed

lemma isAnnualFactD:
  assumes "isAnnualFact x"
  shows "\<exists>f e v. x = Some f \<and> f_end f = Some e \<and> f_val f = Some v \<and> isFinite v \<and>
    toYearPoint x = \<lparr> p_end = e, p_val = v \<rparr>"
proof (cases x)
  case None
  with assms show ?thesis by (simp add: isAnnualFact_def)
next
  case (Some f)
  with assms have e: "f_end f \<noteq> None" and v: "isFiniteNumber (f_val f)"
    by (simp_all add: isAnnualFact_def split: if_splits)
  from e obtain e' where e': "f_end f = Some e'" by blast
  from v obtain v' where v': "f_val f = Some v'" "isFinite v'"
    by (cases "f_val f") (simp_all add: isFiniteNumber_def)
  show ?thesis using Some e' v' by (simp add: toYearPoint_def)
qed

lemma qualifying_finite: "p \<in> set (qualifying arr) \<Longrightarrow> isFinite (p_val p)"
proof -
  assume "p \<in> set (qualifying arr)"
  then obtain x where "isAnnualFact x" "p = toYearPoint x"
    by (auto simp: qualifying_def)
  with isAnnualFactD[of x] show ?thesis by auto
qed


subsection \<open>The tag candidates in order\<close>

lemma pickAnnualSeriesByUnit_step:
  "pickAnnualSeriesByUnit localeCompare facts (tag # tagCandidates) unitPredicate =
     (if tagSeries localeCompare facts unitPredicate tag \<noteq> [] then tagSeries localeCompare facts unitPredicate tag
      else pickAnnualSeriesByUnit localeCompare facts tagCandidates unitPredicate)"
  unfolding tagSeries_def selectedArray_def qualifying_def
  by (simp add: Let_def split: option.splits)

lemma pickAnnualSeriesByUnit_find:
  "pickAnnualSeriesByUnit localeCompare facts tagCandidates unitPredicate =
     (case find (\<lambda>tag. tagSeries localeCompare facts unitPredicate tag \<noteq> []) tagCandidates of
        None \<Rightarrow> []
      | Some tag \<Rightarrow> tagSeries localeCompare facts unitPredicate tag)"
proof (induction tagCandidates)
  case Nil
  show ?case by simp
next
  case (Cons tag tagCandidates)
  show ?case unfolding pickAnnualSeriesByUnit_step Cons by simp
qed

lemma mergeAnnualUSDSeries_eq:
  "mergeAnnualUSDSeries localeCompare facts tagCandidates = dedupAndSort localeCompare (mergedFacts facts tagCandidates)"
  unfolding mergeAnnualUSDSeries_def mergedFacts_def qualifying_def Let_def ..


lemma tagSeries_cases:
  "tagSeries localeCompare facts unitPredicate tag \<noteq> [] \<Longrightarrow>
   \<exists>arr. selectedArray facts unitPredicate tag = Some arr \<and>
     tagSeries localeCompare facts unitPredicate tag = dedupAndSort localeCompare (qualifying arr)"
  by (cases "selectedArray facts unitPredicate tag") (simp_all add: tagSeries_def)

lemma pickAnnualSeriesByUnit_source:
  assumes "pickAnnualSeriesByUnit localeCompare facts tagCandidates unitPredicate \<noteq> []"
  shows "\<exists>tag \<in> set tagCandidates. \<exists>arr.
     selectedArray facts unitPredicate tag = Some arr \<and>
     pickAnnualSeriesByUnit localeCompare facts tagCandidates unitPredicate = dedupAndSort localeCompare (qualifying arr)"
proof (cases "find (\<lambda>tag. tagSeries localeCompare facts unitPredicate tag \<noteq> []) tagCandidates")
  case None
  with assms show ?thesis by (simp add: pickAnnualSeriesByUnit_find)
next
  case (Some tag)
  then have t: "tag \<in> set tagCandidates" "tagSeries localeCompare facts unitPredicate tag \<noteq> []"
    by (auto simp: find_Some_iff)
  from tagSeries_cases[OF t(2)] Some t(1) show ?thesis
    by (auto simp: pickAnnualSeriesByUnit_find)
qed

subsection \<open>The claims on annual series\<close>


subsection \<open>The example facts evaluated\<close>

lemmas eval_facts = exFacts_def pickAnnualUSDSeries_def unitArray_def usdArray_def isAnnualFact_def
  annualFact_def toYearPoint_def dedupAndSort_def sortBy_def codeUnitCompare_def byEndStep_def
  isFiniteNumber_def mergeAnnualUSDSeries_def Let_def


lemma pick_first:
  "pickAnnualUSDSeries codeUnitCompare exFacts [''Missing'', ''Quarterly'', ''Revenues'', ''SalesRevenueNet''] =
     [\<lparr> p_end = ''2019-12-31'', p_val = Fin 80 \<rparr>,
      \<lparr> p_end = ''2020-12-31'', p_val = Fin (- 150) \<rparr>]"
  by (simp add: eval_facts)

lemma merge_all:
  "mergeAnnualUSDSeries codeUnitCompare exFacts [''Missing'', ''Quarterly'', ''Revenues'', ''SalesRevenueNet''] =
     [\<lparr> p_end = ''2018-12-31'', p_val = Fin 70 \<rparr>,
      \<lparr> p_end = ''2019-12-31'', p_val = Fin 80 \<rparr>,
      \<lparr> p_end = ''2020-12-31'', p_val = Fin (- 150) \<rparr>]"
  by (simp add: eval_facts)

lemma pick_none:
  "pickAnnualUSDSeries codeUnitCompare exFacts [''Missing'', ''Quarterly''] = []"
  by (simp add: eval_facts)



lemma codeUnitCompare_le: "(codeUnitCompare a b \<le> 0) = (a \<le> b)"
  by (auto simp: codeUnitCompare_def)

lemma codeUnitCompare_consistent: "consistentComparator codeUnitCompare"
  unfolding consistentComparator_def codeUnitCompare_le by auto

lemma codeUnitCompare_agrees: "agreesOnIsoDates codeUnitCompare"
  by (simp add: agreesOnIsoDates_def codeUnitCompare_le)

lemma isIsoDate_examples:
  "isIsoDate ''2018-12-31''" "isIsoDate ''2019-12-31''" "isIsoDate ''2020-12-31''"
  "\<not> isIsoDate ''a''" "\<not> isIsoDate ''B''"
  by (simp_all add: isIsoDate_def allDigits_def isDigitOf_def digitValue_def)

text \<open>
  Claim C7, as the code has it. The series of \<^verbatim>\<open>pickAnnualSeriesByUnit\<close> and of
  \<^verbatim>\<open>mergeAnnualUSDSeries\<close> have at most one point for an end date and hold finite values
  only, whatever the facts and whatever \<^verbatim>\<open>localeCompare\<close> does. They are in the order
  of \<^verbatim>\<open>localeCompare\<close> when it is a consistent comparator. They are strictly increasing
  by end date when their end dates are ISO dates and \<^verbatim>\<open>localeCompare\<close> orders ISO dates
  as dates.
\<close>

theorem annual_series_invariant:
  "(let r = pickAnnualSeriesByUnit localeCompare facts tagCandidates unitPredicate
    in distinct (map p_end r) \<and>
       (\<forall>p \<in> set r. isFinite (p_val p)) \<and>
       (consistentComparator localeCompare \<longrightarrow>
          sorted_wrt (\<lambda>p q. localeCompare (p_end p) (p_end q) \<le> 0) r) \<and>
       (agreesOnIsoDates localeCompare \<and> (\<forall>p \<in> set r. isIsoDate (p_end p)) \<longrightarrow>
          sorted_wrt (<) (map p_end r))) \<and>
   (let r = mergeAnnualUSDSeries localeCompare facts tagCandidates
    in distinct (map p_end r) \<and>
       (\<forall>p \<in> set r. isFinite (p_val p)) \<and>
       (consistentComparator localeCompare \<longrightarrow>
          sorted_wrt (\<lambda>p q. localeCompare (p_end p) (p_end q) \<le> 0) r) \<and>
       (agreesOnIsoDates localeCompare \<and> (\<forall>p \<in> set r. isIsoDate (p_end p)) \<longrightarrow>
          sorted_wrt (<) (map p_end r)))"
proof -
  have d: "distinct (map p_end (dedupAndSort localeCompare qs)) \<and>
       (\<forall>p \<in> set (dedupAndSort localeCompare qs). isFinite (p_val p)) \<and>
       (consistentComparator localeCompare \<longrightarrow>
          sorted_wrt (\<lambda>p q. localeCompare (p_end p) (p_end q) \<le> 0)
            (dedupAndSort localeCompare qs)) \<and>
       (agreesOnIsoDates localeCompare \<and>
        (\<forall>p \<in> set (dedupAndSort localeCompare qs). isIsoDate (p_end p)) \<longrightarrow>
          sorted_wrt (<) (map p_end (dedupAndSort localeCompare qs)))"
    if f: "\<forall>p \<in> set qs. isFinite (p_val p)" for qs
  proof (intro conjI impI)
    show "distinct (map p_end (dedupAndSort localeCompare qs))"
      by (rule dedupAndSort_distinct)
    show "\<forall>p \<in> set (dedupAndSort localeCompare qs). isFinite (p_val p)"
      using f dedupAndSort_member[of _ localeCompare qs] by blast
    show "sorted_wrt (\<lambda>p q. localeCompare (p_end p) (p_end q) \<le> 0)
        (dedupAndSort localeCompare qs)"
      if "consistentComparator localeCompare"
      using that by (rule dedupAndSort_ordered)
    show "sorted_wrt (<) (map p_end (dedupAndSort localeCompare qs))"
      if "agreesOnIsoDates localeCompare \<and>
        (\<forall>p \<in> set (dedupAndSort localeCompare qs). isIsoDate (p_end p))"
      by (rule dedupAndSort_strict) (use that in \<open>auto simp: agreesOnIsoDates_def\<close>)
  qed
  have e: "distinct (map p_end ([] :: YearPoint list)) \<and>
       (\<forall>p \<in> set ([] :: YearPoint list). isFinite (p_val p)) \<and>
       (consistentComparator localeCompare \<longrightarrow>
          sorted_wrt (\<lambda>p q. localeCompare (p_end p) (p_end q) \<le> 0) []) \<and>
       (agreesOnIsoDates localeCompare \<and> (\<forall>p \<in> set ([] :: YearPoint list). isIsoDate (p_end p)) \<longrightarrow>
          sorted_wrt (<) (map p_end ([] :: YearPoint list)))"
    by simp
  have 1: "(let r = pickAnnualSeriesByUnit localeCompare facts tagCandidates unitPredicate
    in distinct (map p_end r) \<and>
       (\<forall>p \<in> set r. isFinite (p_val p)) \<and>
       (consistentComparator localeCompare \<longrightarrow>
          sorted_wrt (\<lambda>p q. localeCompare (p_end p) (p_end q) \<le> 0) r) \<and>
       (agreesOnIsoDates localeCompare \<and> (\<forall>p \<in> set r. isIsoDate (p_end p)) \<longrightarrow>
          sorted_wrt (<) (map p_end r)))"
  proof (cases "pickAnnualSeriesByUnit localeCompare facts tagCandidates unitPredicate = []")
    case True
    show ?thesis unfolding Let_def True by (rule e)
  next
    case False
    from pickAnnualSeriesByUnit_source[OF this] obtain arr where
      a: "pickAnnualSeriesByUnit localeCompare facts tagCandidates unitPredicate =
        dedupAndSort localeCompare (qualifying arr)"
      by blast
    have "\<forall>p \<in> set (qualifying arr). isFinite (p_val p)" by (simp add: qualifying_finite)
    from d[OF this] show ?thesis unfolding Let_def a .
  qed
  have "\<forall>p \<in> set (mergedFacts facts tagCandidates). isFinite (p_val p)"
    by (auto simp: mergedFacts_def qualifying_finite split: option.splits)
  from d[OF this] have 2: "(let r = mergeAnnualUSDSeries localeCompare facts tagCandidates
    in distinct (map p_end r) \<and>
       (\<forall>p \<in> set r. isFinite (p_val p)) \<and>
       (consistentComparator localeCompare \<longrightarrow>
          sorted_wrt (\<lambda>p q. localeCompare (p_end p) (p_end q) \<le> 0) r) \<and>
       (agreesOnIsoDates localeCompare \<and> (\<forall>p \<in> set r. isIsoDate (p_end p)) \<longrightarrow>
          sorted_wrt (<) (map p_end r)))"
    unfolding Let_def mergeAnnualUSDSeries_eq .
  from 1 2 show ?thesis by (rule conjI)
qed

text \<open>The example facts, whose end dates are ISO dates, under the comparison of code units.\<close>

theorem annual_series_invariant_witness:
  "consistentComparator codeUnitCompare \<and> agreesOnIsoDates codeUnitCompare \<and>
   pickAnnualUSDSeries codeUnitCompare exFacts
       [''Missing'', ''Quarterly'', ''Revenues'', ''SalesRevenueNet''] =
     [\<lparr> p_end = ''2019-12-31'', p_val = Fin 80 \<rparr>,
      \<lparr> p_end = ''2020-12-31'', p_val = Fin (- 150) \<rparr>] \<and>
   sorted_wrt (<) (map p_end
     (pickAnnualUSDSeries codeUnitCompare exFacts
        [''Missing'', ''Quarterly'', ''Revenues'', ''SalesRevenueNet''])) \<and>
   mergeAnnualUSDSeries codeUnitCompare exFacts
       [''Missing'', ''Quarterly'', ''Revenues'', ''SalesRevenueNet''] =
     [\<lparr> p_end = ''2018-12-31'', p_val = Fin 70 \<rparr>,
      \<lparr> p_end = ''2019-12-31'', p_val = Fin 80 \<rparr>,
      \<lparr> p_end = ''2020-12-31'', p_val = Fin (- 150) \<rparr>] \<and>
   sorted_wrt (<) (map p_end
     (mergeAnnualUSDSeries codeUnitCompare exFacts
        [''Missing'', ''Quarterly'', ''Revenues'', ''SalesRevenueNet'']))"
proof -
  have i: "\<forall>p \<in> set (pickAnnualSeriesByUnit codeUnitCompare exFacts
       [''Missing'', ''Quarterly'', ''Revenues'', ''SalesRevenueNet''] (\<lambda>u. u = ''USD'')).
       isIsoDate (p_end p)"
    using pick_first by (simp add: pickAnnualUSDSeries_def isIsoDate_examples)
  have j: "\<forall>p \<in> set (mergeAnnualUSDSeries codeUnitCompare exFacts
       [''Missing'', ''Quarterly'', ''Revenues'', ''SalesRevenueNet'']). isIsoDate (p_end p)"
    by (simp add: merge_all isIsoDate_examples)
  from annual_series_invariant[of codeUnitCompare exFacts
      "[''Missing'', ''Quarterly'', ''Revenues'', ''SalesRevenueNet'']" "\<lambda>u. u = ''USD''"]
    i j codeUnitCompare_agrees
  have "sorted_wrt (<) (map p_end
     (pickAnnualUSDSeries codeUnitCompare exFacts
        [''Missing'', ''Quarterly'', ''Revenues'', ''SalesRevenueNet''])) \<and>
   sorted_wrt (<) (map p_end
     (mergeAnnualUSDSeries codeUnitCompare exFacts
        [''Missing'', ''Quarterly'', ''Revenues'', ''SalesRevenueNet'']))"
    unfolding pickAnnualUSDSeries_def Let_def by blast
  with pick_first merge_all codeUnitCompare_consistent codeUnitCompare_agrees
  show ?thesis by blast
qed

text \<open>
  The filter takes any string for an end date. With the ends \<^verbatim>\<open>a\<close> and \<^verbatim>\<open>B\<close>, and a
  comparison that puts \<^verbatim>\<open>a\<close> before \<^verbatim>\<open>B\<close> as \<^verbatim>\<open>localeCompare\<close> does, both series
  are \<^verbatim>\<open>a\<close> then \<^verbatim>\<open>B\<close>, which is not increasing: \<^verbatim>\<open>B\<close> is the smaller string.
\<close>

theorem annual_series_invariant_counterexample:
  "collationCompare ''a'' ''B'' = - 1 \<and>
   ''B'' < ''a'' \<and>
   pickAnnualUSDSeries collationCompare letterFacts [''Revenues''] =
     [\<lparr> p_end = ''a'', p_val = Fin 1 \<rparr>, \<lparr> p_end = ''B'', p_val = Fin 2 \<rparr>] \<and>
   \<not> sorted_wrt (<) (map p_end (pickAnnualUSDSeries collationCompare letterFacts [''Revenues''])) \<and>
   mergeAnnualUSDSeries collationCompare letterFacts [''Revenues''] =
     [\<lparr> p_end = ''a'', p_val = Fin 1 \<rparr>, \<lparr> p_end = ''B'', p_val = Fin 2 \<rparr>] \<and>
   \<not> sorted_wrt (<) (map p_end (mergeAnnualUSDSeries collationCompare letterFacts [''Revenues'']))"
proof -
  have c: "collationCompare ''a'' ''B'' = - 1" "collationCompare ''B'' ''a'' = 1"
    by code_simp+
  have p: "pickAnnualUSDSeries collationCompare letterFacts [''Revenues''] =
     [\<lparr> p_end = ''a'', p_val = Fin 1 \<rparr>, \<lparr> p_end = ''B'', p_val = Fin 2 \<rparr>]"
    by (simp add: letterFacts_def pickAnnualUSDSeries_def unitArray_def isAnnualFact_def
        annualFact_def toYearPoint_def dedupAndSort_def sortBy_def byEndStep_def
        isFiniteNumber_def Let_def c)
  have m: "mergeAnnualUSDSeries collationCompare letterFacts [''Revenues''] =
     [\<lparr> p_end = ''a'', p_val = Fin 1 \<rparr>, \<lparr> p_end = ''B'', p_val = Fin 2 \<rparr>]"
    by (simp add: letterFacts_def mergeAnnualUSDSeries_def usdArray_def unitArray_def
        isAnnualFact_def annualFact_def toYearPoint_def dedupAndSort_def sortBy_def byEndStep_def
        isFiniteNumber_def Let_def c)
  show ?thesis unfolding p m by (simp add: c)
qed

lemma selectedArray_source:
  assumes "selectedArray facts unitPredicate tag = Some arr"
  shows "\<exists>node u. facts tag = Some node \<and> (u, Some arr) \<in> set node \<and> unitPredicate u"
proof -
  from assms obtain node where n: "facts tag = Some node"
    by (cases "facts tag") (simp_all add: selectedArray_def)
  from assms n obtain u where u: "find unitPredicate (map fst node) = Some u"
    by (cases "find unitPredicate (map fst node)") (simp_all add: selectedArray_def)
  from assms n u have a: "unitArray node u = Some arr"
    by (simp add: selectedArray_def split: if_splits)
  then have "map_of node u = Some (Some arr)"
    by (simp add: unitArray_def split: option.splits)
  then have "(u, Some arr) \<in> set node" by (rule map_of_SomeD)
  moreover from u have "unitPredicate u" by (auto simp: find_Some_iff)
  ultimately show ?thesis using n by blast
qed

lemma tagSeries_empty:
  assumes "\<forall>arr. selectedArray facts unitPredicate tag = Some arr \<longrightarrow> (\<forall>x \<in> set arr. \<not> isAnnualFact x)"
  shows "tagSeries localeCompare facts unitPredicate tag = []"
proof (cases "selectedArray facts unitPredicate tag")
  case None
  then show ?thesis by (simp add: tagSeries_def)
next
  case (Some arr)
  with assms have "filter isAnnualFact arr = []" by (simp add: filter_empty_conv)
  then show ?thesis using Some by (simp add: tagSeries_def qualifying_def dedupAndSort_def sortBy_def)
qed

text \<open>
  Claim C8. \<^verbatim>\<open>pickAnnualSeriesByUnit\<close> returns the series of the first tag candidate, in
  list order, whose series is not empty, and nothing of the later candidates; it returns
  the empty series when no array it reads has a qualifying fact, in particular when no
  unit of any tag candidate that satisfies the predicate has one. The function has no
  throwing path: every access of the source is guarded, and the model is total.
\<close>

theorem first_tag_wins:
  "pickAnnualSeriesByUnit localeCompare facts tagCandidates unitPredicate =
     (case find (\<lambda>tag. tagSeries localeCompare facts unitPredicate tag \<noteq> []) tagCandidates of
        None \<Rightarrow> []
      | Some tag \<Rightarrow> tagSeries localeCompare facts unitPredicate tag) \<and>
   (\<forall>i < length tagCandidates.
      tagSeries localeCompare facts unitPredicate (tagCandidates ! i) \<noteq> [] \<and>
      (\<forall>j < i. tagSeries localeCompare facts unitPredicate (tagCandidates ! j) = []) \<longrightarrow>
      pickAnnualSeriesByUnit localeCompare facts tagCandidates unitPredicate =
        tagSeries localeCompare facts unitPredicate (tagCandidates ! i)) \<and>
   ((\<forall>tag \<in> set tagCandidates. \<forall>arr.
        selectedArray facts unitPredicate tag = Some arr \<longrightarrow> (\<forall>x \<in> set arr. \<not> isAnnualFact x)) \<longrightarrow>
    pickAnnualSeriesByUnit localeCompare facts tagCandidates unitPredicate = []) \<and>
   ((\<forall>tag \<in> set tagCandidates. \<forall>node u arr.
        facts tag = Some node \<and> (u, Some arr) \<in> set node \<and> unitPredicate u \<longrightarrow>
        (\<forall>x \<in> set arr. \<not> isAnnualFact x)) \<longrightarrow>
    pickAnnualSeriesByUnit localeCompare facts tagCandidates unitPredicate = [])"
proof -
  let ?P = "\<lambda>tag. tagSeries localeCompare facts unitPredicate tag \<noteq> []"
  have 2: "pickAnnualSeriesByUnit localeCompare facts tagCandidates unitPredicate =
        tagSeries localeCompare facts unitPredicate (tagCandidates ! i)"
    if "i < length tagCandidates" "?P (tagCandidates ! i)" "\<forall>j < i. \<not> ?P (tagCandidates ! j)" for i
  proof -
    from that have "find ?P tagCandidates = Some (tagCandidates ! i)"
      unfolding find_Some_iff by blast
    then show ?thesis by (simp add: pickAnnualSeriesByUnit_find)
  qed
  have 3: "pickAnnualSeriesByUnit localeCompare facts tagCandidates unitPredicate = []"
    if "\<forall>tag \<in> set tagCandidates. \<forall>arr.
        selectedArray facts unitPredicate tag = Some arr \<longrightarrow> (\<forall>x \<in> set arr. \<not> isAnnualFact x)"
  proof -
    from that have "\<forall>tag \<in> set tagCandidates. \<not> ?P tag"
      using tagSeries_empty[of facts unitPredicate] by blast
    then have "find ?P tagCandidates = None" unfolding find_None_iff by blast
    then show ?thesis by (simp add: pickAnnualSeriesByUnit_find)
  qed
  have 4: "pickAnnualSeriesByUnit localeCompare facts tagCandidates unitPredicate = []"
    if a: "\<forall>tag \<in> set tagCandidates. \<forall>node u arr.
        facts tag = Some node \<and> (u, Some arr) \<in> set node \<and> unitPredicate u \<longrightarrow>
        (\<forall>x \<in> set arr. \<not> isAnnualFact x)"
  proof (rule 3, intro ballI allI impI)
    fix tag arr x
    assume t: "tag \<in> set tagCandidates" "selectedArray facts unitPredicate tag = Some arr"
      and x: "x \<in> set arr"
    from selectedArray_source[OF t(2)] obtain node u where
      "facts tag = Some node" "(u, Some arr) \<in> set node" "unitPredicate u" by blast
    with a t(1) x show "\<not> isAnnualFact x" by blast
  qed
  show ?thesis using 2 3 4 by (simp add: pickAnnualSeriesByUnit_find)
qed

theorem first_tag_wins_witness:
  "tagSeries codeUnitCompare exFacts (\<lambda>u. u = ''USD'') ''Missing'' = [] \<and>
   tagSeries codeUnitCompare exFacts (\<lambda>u. u = ''USD'') ''Quarterly'' = [] \<and>
   tagSeries codeUnitCompare exFacts (\<lambda>u. u = ''USD'') ''Revenues'' =
     [\<lparr> p_end = ''2019-12-31'', p_val = Fin 80 \<rparr>,
      \<lparr> p_end = ''2020-12-31'', p_val = Fin (- 150) \<rparr>] \<and>
   tagSeries codeUnitCompare exFacts (\<lambda>u. u = ''USD'') ''SalesRevenueNet'' =
     [\<lparr> p_end = ''2018-12-31'', p_val = Fin 70 \<rparr>,
      \<lparr> p_end = ''2020-12-31'', p_val = Fin 120 \<rparr>] \<and>
   pickAnnualSeriesByUnit codeUnitCompare exFacts [''Missing'', ''Quarterly'', ''Revenues'', ''SalesRevenueNet'']
     (\<lambda>u. u = ''USD'') =
     [\<lparr> p_end = ''2019-12-31'', p_val = Fin 80 \<rparr>,
      \<lparr> p_end = ''2020-12-31'', p_val = Fin (- 150) \<rparr>] \<and>
   pickAnnualSeriesByUnit codeUnitCompare exFacts [''Missing'', ''Quarterly''] (\<lambda>u. u = ''USD'') = []"
proof -
  have t: "tagSeries codeUnitCompare exFacts (\<lambda>u. u = ''USD'') ''Missing'' = []"
    "tagSeries codeUnitCompare exFacts (\<lambda>u. u = ''USD'') ''Quarterly'' = []"
    "tagSeries codeUnitCompare exFacts (\<lambda>u. u = ''USD'') ''Revenues'' =
     [\<lparr> p_end = ''2019-12-31'', p_val = Fin 80 \<rparr>,
      \<lparr> p_end = ''2020-12-31'', p_val = Fin (- 150) \<rparr>]"
    "tagSeries codeUnitCompare exFacts (\<lambda>u. u = ''USD'') ''SalesRevenueNet'' =
     [\<lparr> p_end = ''2018-12-31'', p_val = Fin 70 \<rparr>,
      \<lparr> p_end = ''2020-12-31'', p_val = Fin 120 \<rparr>]"
    by (simp_all add: tagSeries_def selectedArray_def qualifying_def eval_facts)
  from first_tag_wins[of codeUnitCompare exFacts
      "[''Missing'', ''Quarterly'', ''Revenues'', ''SalesRevenueNet'']"
      "\<lambda>u. u = ''USD''"]
    first_tag_wins[of codeUnitCompare exFacts "[''Missing'', ''Quarterly'']" "\<lambda>u. u = ''USD''"]
  show ?thesis by (simp add: t)
qed

section \<open>Properties of the nearest-date lookups\<close>

subsection \<open>The example lookups evaluated\<close>

lemmas eval_iso = isoTime_def allDigits_def isDigitOf_def digitValue_def digitsValue_def
  daysInMonth_def isLeapYear_def daysFromCivil_def daysBeforeMonth_def daysBetween_def js_sub_def Let_def

lemma isoTime_examples:
  "isoTime ''1970-01-01'' = Fin 0"
  "isoTime ''2000-03-01'' = Fin 951868800000"
  "isoTime ''2020-12-31'' = Fin 1609372800000"
  "isoTime ''2020-02-30'' = NaN"
  by (simp_all add: eval_iso)

lemma days_examples:
  "daysBetween isoTime ''2021-01-10'' ''2020-12-31'' = Fin 10"
  "daysBetween isoTime ''2020-12-21'' ''2020-12-31'' = Fin 10"
  "daysBetween isoTime ''2021-01-01'' ''2020-12-31'' = Fin 1"
  "daysBetween isoTime ''2020-06-30'' ''2020-12-31'' = Fin 184"
  "daysBetween isoTime ''2020-01-31'' ''2020-12-31'' = Fin 335"
  by (simp_all add: eval_iso)

lemmas eval_lookup = lookupFacts_def unitArray_def usdArray_def annualFact_def toYearPoint_def
  isFiniteNumber_def datedValues_def shareCandidates_def toLowerCase_def nearestLoop_def
  nearestStep_def dateNumber_def Number_def trim_def isWhiteSpace_def nonDecimal_def
  unsignedDecimal_def isDigitOf_def digitValue_def exponentPart_def digitsValue_def js_sub_def Let_def

lemma shares_tie:
  "pickSharesNearestToEndDate isoTime lookupFacts ''2020-12-31'' = Some (Fin 5)"
  by (simp add: pickSharesNearestToEndDate_def eval_lookup days_examples)

lemma debt_far:
  "pickDebtNearestToEndDate lookupFacts ''2020-12-31'' = Some (Fin 2)"
  by (simp add: pickDebtNearestToEndDate_def eval_lookup)

lemma equity_far:
  "pickNearestUSDValue lookupFacts [''StockholdersEquity''] ''2020-12-31'' (Fin 200) = Some (Fin 3)"
  by (simp add: pickNearestUSDValue_def eval_lookup)

lemma cash_near:
  "pickNearestUSDValue lookupFacts [''CashAndCashEquivalentsAtCarryingValue''] ''2020-12-31'' (Fin 200) = None"
  by (simp add: pickNearestUSDValue_def eval_lookup)

subsection \<open>The selection loop\<close>

lemma js_lt_trans: "js_lt a b \<Longrightarrow> js_lt b c \<Longrightarrow> js_lt a c"
  by (cases a; cases b; cases c) auto

lemma js_lt_PInf: "js_lt a b \<Longrightarrow> js_lt a PInf"
  by (cases a; cases b) auto

lemma not_valid_not_lt: "\<not> js_lt a PInf \<Longrightarrow> \<not> js_lt a b"
  by (cases a; cases b) auto

lemma closer_not_le: "js_lt c b \<Longrightarrow> \<not> js_lt j b \<Longrightarrow> \<not> js_le j c"
  by (cases c; cases b; cases j) (auto simp: js_le_def)

lemma nearestLoop_snoc:
  "nearestLoop distance (cs @ [c]) = nearestStep distance (nearestLoop distance cs) c"
  by (simp add: nearestLoop_def)

lemma nearestInv_step:
  assumes "nearestInv distance cs st"
  shows "nearestInv distance (cs @ [c]) (nearestStep distance st c)"
proof (cases "js_lt (distance c) (snd st)")
  case True
  then have s: "nearestStep distance st c = (Some c, distance c)"
    by (simp add: nearestStep_def)
  have v: "js_lt (distance c) PInf" using True by (rule js_lt_PInf)
  have old: "\<not> js_lt (distance (cs ! j)) (snd st)" if "j < length cs" for j
  proof (cases "fst st")
    case None
    with assms that have "\<not> js_lt (distance (cs ! j)) PInf"
      by (simp add: nearestInv_def)
    then show ?thesis by (rule not_valid_not_lt)
  next
    case (Some b)
    with assms that show ?thesis
      by (auto simp: nearestInv_def isFirstNearest_def)
  qed
  have a: "\<not> js_lt (distance ((cs @ [c]) ! j)) (distance c)" if "j < length (cs @ [c])" for j
  proof (cases "j < length cs")
    case True
    from old[OF this] \<open>js_lt (distance c) (snd st)\<close>
    have "\<not> js_lt (distance (cs ! j)) (distance c)" using js_lt_trans by blast
    with True show ?thesis by (simp add: nth_append)
  next
    case False
    with that have "j = length cs" by simp
    then show ?thesis by (simp add: js_lt_irrefl)
  qed
  have b: "\<not> js_le (distance ((cs @ [c]) ! j)) (distance c)" if "j < length cs" for j
    using closer_not_le[OF True old[OF that]] that by (simp add: nth_append)
  have "isFirstNearest distance (cs @ [c]) c"
    unfolding isFirstNearest_def
    using v a b by (intro exI[of _ "length cs"]) simp
  then show ?thesis by (simp add: nearestInv_def s)
next
  case False
  then have s: "nearestStep distance st c = st" by (simp add: nearestStep_def)
  show ?thesis
  proof (cases "fst st")
    case None
    with assms False show ?thesis by (auto simp: nearestInv_def s)
  next
    case (Some b)
    with assms have d: "snd st = distance b" and f: "isFirstNearest distance cs b"
      by (simp_all add: nearestInv_def)
    from f obtain i where i: "i < length cs" "cs ! i = b" "js_lt (distance b) PInf"
      "\<forall>j < length cs. \<not> js_lt (distance (cs ! j)) (distance b)"
      "\<forall>j < i. \<not> js_le (distance (cs ! j)) (distance b)"
      unfolding isFirstNearest_def by blast
    have a: "\<not> js_lt (distance ((cs @ [c]) ! j)) (distance b)" if "j < length (cs @ [c])" for j
    proof (cases "j < length cs")
      case True
      with i(4) show ?thesis by (simp add: nth_append)
    next
      case False
      with that have "j = length cs" by simp
      then show ?thesis using \<open>\<not> js_lt (distance c) (snd st)\<close> d by simp
    qed
    have "isFirstNearest distance (cs @ [c]) b"
      unfolding isFirstNearest_def
      using i a by (intro exI[of _ i]) (simp add: nth_append)
    with Some d show ?thesis by (simp add: nearestInv_def s)
  qed
qed

lemma nearestInv_loop: "nearestInv distance cs (nearestLoop distance cs)"
proof (induction cs rule: rev_induct)
  case Nil
  show ?case by (simp add: nearestInv_def nearestLoop_def)
next
  case (snoc c cs)
  then show ?case unfolding nearestLoop_snoc by (rule nearestInv_step)
qed

subsection \<open>The three lookups\<close>

lemma beyond_tolerance: "js_lt t b \<Longrightarrow> \<not> js_lt j b \<Longrightarrow> \<not> js_lt j PInf \<or> js_lt t j"
  by (cases t; cases b; cases j) auto

lemma nearestLoop_cases:
  obtains (none) "nearestLoop distance cs = (None, PInf)"
      "\<forall>c \<in> set cs. \<not> js_lt (distance c) PInf"
    | (some) b where "nearestLoop distance cs = (Some b, distance b)"
      "isFirstNearest distance cs b"
proof (cases "fst (nearestLoop distance cs)")
  case None
  with nearestInv_loop[of distance cs] have "snd (nearestLoop distance cs) = PInf"
    "\<forall>c \<in> set cs. \<not> js_lt (distance c) PInf"
    by (simp_all add: nearestInv_def)
  with None none show ?thesis by (metis prod.collapse)
next
  case (Some b)
  with nearestInv_loop[of distance cs] have "snd (nearestLoop distance cs) = distance b"
    "isFirstNearest distance cs b"
    by (simp_all add: nearestInv_def)
  with Some some show ?thesis by (metis prod.collapse)
qed

lemma isFirstNearest_least:
  "isFirstNearest distance cs b \<Longrightarrow> c \<in> set cs \<Longrightarrow> \<not> js_lt (distance c) (distance b)"
  by (auto simp: isFirstNearest_def in_set_conv_nth)

lemma pickShares_result:
  fixes getTime facts endDate
  defines "d \<equiv> \<lambda>c. daysBetween getTime (p_end c) endDate"
  shows "(\<forall>v. pickSharesNearestToEndDate getTime facts endDate = Some v \<longrightarrow>
        (\<exists>b. isFirstNearest d (allShareCandidates facts) b \<and> v = p_val b \<and>
             \<not> js_lt (Fin 180) (d b))) \<and>
     (pickSharesNearestToEndDate getTime facts endDate = None \<longrightarrow>
        (\<forall>c \<in> set (allShareCandidates facts). \<not> js_le (d c) (Fin 180)))"
proof -
  let ?cs = "allShareCandidates facts"
  have e: "pickSharesNearestToEndDate getTime facts endDate =
      (if length ?cs = 0 then None
       else case nearestLoop d ?cs of
         (best, bestDays) \<Rightarrow>
           (case best of None \<Rightarrow> None
            | Some b \<Rightarrow> if js_lt (Fin 180) bestDays then None else Some (p_val b)))"
    by (simp add: pickSharesNearestToEndDate_def allShareCandidates_def d_def Let_def)
  show ?thesis
  proof (cases rule: nearestLoop_cases[of d ?cs])
    case none
    have "\<not> js_le (d c) (Fin 180)" if "c \<in> set ?cs" for c
      using none(2) that by (cases "d c") (auto simp: js_le_def)
    then show ?thesis unfolding e none(1) by simp
  next
    case (some b)
    then have ne: "length ?cs \<noteq> 0" by (auto simp: isFirstNearest_def)
    show ?thesis
    proof (cases "js_lt (Fin 180) (d b)")
      case True
      have "\<not> js_le (d c) (Fin 180)" if "c \<in> set ?cs" for c
        using closer_not_le[OF True isFirstNearest_least[OF some(2) that]] .
      then show ?thesis unfolding e some(1) using ne True by simp
    next
      case False
      then show ?thesis unfolding e some(1) using ne some(2) by auto
    qed
  qed
qed

lemma pickNearestUSD_result:
  fixes facts tagCandidates endDate maxDays
  defines "d \<equiv> encodingDistance endDate"
  shows "(\<forall>v. pickNearestUSDValue facts tagCandidates endDate maxDays = Some v \<longrightarrow>
        (\<exists>b. isFirstNearest d (usdCandidates facts tagCandidates) b \<and> v = p_val b \<and>
             \<not> js_lt (js_mul maxDays (Fin 10)) (d b))) \<and>
     (pickNearestUSDValue facts tagCandidates endDate maxDays = None \<longrightarrow>
        (\<forall>c \<in> set (usdCandidates facts tagCandidates).
           \<not> js_lt (d c) PInf \<or> js_lt (js_mul maxDays (Fin 10)) (d c)))"
proof -
  let ?cs = "usdCandidates facts tagCandidates"
  have d: "d = (\<lambda>c. Math_abs (js_sub (dateNumber (p_end c)) (dateNumber endDate)))"
    by (simp add: d_def encodingDistance_def fun_eq_iff)
  have e: "pickNearestUSDValue facts tagCandidates endDate maxDays =
      (if length ?cs = 0 then None
       else case nearestLoop d ?cs of
         (best, bestDiff) \<Rightarrow>
           (case best of None \<Rightarrow> None
            | Some b \<Rightarrow> if js_lt (js_mul maxDays (Fin 10)) bestDiff then None else Some (p_val b)))"
    unfolding d by (simp add: pickNearestUSDValue_def usdCandidates_def Let_def)
  show ?thesis
  proof (cases rule: nearestLoop_cases[of d ?cs])
    case none
    then show ?thesis unfolding e by simp
  next
    case (some b)
    then have ne: "length ?cs \<noteq> 0" by (auto simp: isFirstNearest_def)
    show ?thesis
    proof (cases "js_lt (js_mul maxDays (Fin 10)) (d b)")
      case True
      have "\<not> js_lt (d c) PInf \<or> js_lt (js_mul maxDays (Fin 10)) (d c)" if "c \<in> set ?cs" for c
        using beyond_tolerance[OF True isFirstNearest_least[OF some(2) that]] .
      then show ?thesis unfolding e some(1) using ne True by simp
    next
      case False
      then show ?thesis unfolding e some(1) using ne some(2) by auto
    qed
  qed
qed

lemma pickDebt_result:
  fixes facts endDate
  defines "d \<equiv> encodingDistance endDate"
  defines "cs \<equiv> usdCandidates facts [''LongTermDebtNoncurrent'', ''LongTermDebt'']"
  shows "(\<forall>v. pickDebtNearestToEndDate facts endDate = Some v \<longrightarrow>
        (\<exists>b. isFirstNearest d cs b \<and> v = p_val b)) \<and>
     (pickDebtNearestToEndDate facts endDate = None \<longrightarrow> (\<forall>c \<in> set cs. \<not> js_lt (d c) PInf))"
proof -
  have d: "d = (\<lambda>c. Math_abs (js_sub (dateNumber (p_end c)) (dateNumber endDate)))"
    by (simp add: d_def encodingDistance_def fun_eq_iff)
  have e: "pickDebtNearestToEndDate facts endDate =
      (if length cs = 0 then None
       else case nearestLoop d cs of
         (best, bestDiff) \<Rightarrow> (case best of None \<Rightarrow> None | Some b \<Rightarrow> Some (p_val b)))"
    unfolding d by (simp add: pickDebtNearestToEndDate_def usdCandidates_def cs_def Let_def)
  show ?thesis
  proof (cases rule: nearestLoop_cases[of d cs])
    case none
    then show ?thesis unfolding e by simp
  next
    case (some b)
    then have ne: "length cs \<noteq> 0" by (auto simp: isFirstNearest_def)
    show ?thesis unfolding e some(1) using ne some(2) by auto
  qed
qed

text \<open>
  Claim C5, as the code has it. Each lookup returns the value of the first candidate, in
  candidate order, at the least distance to the target. For the shares the distance is
  \<^verbatim>\<open>daysBetween\<close>, and the lookup returns \<^verbatim>\<open>null\<close> when that least distance is
  above 180, or no candidate has a valid date. For the dollar values the distance is the
  absolute difference of the two dates read as numbers \<^verbatim>\<open>YYYYMMDD\<close>;
  \<^verbatim>\<open>pickNearestUSDValue\<close> returns \<^verbatim>\<open>null\<close> when the least distance is above
  \<^verbatim>\<open>maxDays * 10\<close>, and \<^verbatim>\<open>pickDebtNearestToEndDate\<close> returns the nearest candidate
  whatever its distance.
\<close>

theorem nearest_lookups:
  "((\<forall>v. pickSharesNearestToEndDate getTime facts endDate = Some v \<longrightarrow>
        (\<exists>b. isFirstNearest (\<lambda>c. daysBetween getTime (p_end c) endDate)
               (allShareCandidates facts) b \<and>
             v = p_val b \<and> \<not> js_lt (Fin 180) (daysBetween getTime (p_end b) endDate))) \<and>
    (pickSharesNearestToEndDate getTime facts endDate = None \<longrightarrow>
        (\<forall>c \<in> set (allShareCandidates facts).
           \<not> js_le (daysBetween getTime (p_end c) endDate) (Fin 180)))) \<and>
   ((\<forall>v. pickNearestUSDValue facts tagCandidates endDate maxDays = Some v \<longrightarrow>
        (\<exists>b. isFirstNearest (encodingDistance endDate) (usdCandidates facts tagCandidates) b \<and>
             v = p_val b \<and> \<not> js_lt (js_mul maxDays (Fin 10)) (encodingDistance endDate b))) \<and>
    (pickNearestUSDValue facts tagCandidates endDate maxDays = None \<longrightarrow>
        (\<forall>c \<in> set (usdCandidates facts tagCandidates).
           \<not> js_lt (encodingDistance endDate c) PInf \<or>
           js_lt (js_mul maxDays (Fin 10)) (encodingDistance endDate c)))) \<and>
   ((\<forall>v. pickDebtNearestToEndDate facts endDate = Some v \<longrightarrow>
        (\<exists>b. isFirstNearest (encodingDistance endDate)
               (usdCandidates facts [''LongTermDebtNoncurrent'', ''LongTermDebt'']) b \<and>
             v = p_val b)) \<and>
    (pickDebtNearestToEndDate facts endDate = None \<longrightarrow>
        (\<forall>c \<in> set (usdCandidates facts [''LongTermDebtNoncurrent'', ''LongTermDebt'']).
           \<not> js_lt (encodingDistance endDate c) PInf)))"
  by (intro conjI pickShares_result[THEN conjunct1] pickShares_result[THEN conjunct2]
      pickNearestUSD_result[THEN conjunct1] pickNearestUSD_result[THEN conjunct2]
      pickDebt_result[THEN conjunct1] pickDebt_result[THEN conjunct2])

lemma debt_old:
  "pickDebtNearestToEndDate oldDebtFacts ''2020-12-31'' = Some (Fin 9)"
  by (simp add: pickDebtNearestToEndDate_def oldDebtFacts_def eval_lookup)

lemma lookup_candidates:
  "allShareCandidates lookupFacts =
     [\<lparr> p_end = ''2021-01-10'', p_val = Fin 5 \<rparr>, \<lparr> p_end = ''2020-12-21'', p_val = Fin 7 \<rparr>]"
  "usdCandidates lookupFacts [''LongTermDebtNoncurrent'', ''LongTermDebt''] =
     [\<lparr> p_end = ''2021-01-01'', p_val = Fin 1 \<rparr>, \<lparr> p_end = ''2020-06-30'', p_val = Fin 2 \<rparr>]"
  "usdCandidates lookupFacts [''StockholdersEquity''] =
     [\<lparr> p_end = ''2020-01-31'', p_val = Fin 3 \<rparr>]"
  "usdCandidates lookupFacts [''CashAndCashEquivalentsAtCarryingValue''] =
     [\<lparr> p_end = ''2021-01-01'', p_val = Fin 4 \<rparr>]"
  "usdCandidates oldDebtFacts [''LongTermDebtNoncurrent'', ''LongTermDebt''] =
     [\<lparr> p_end = ''2010-12-31'', p_val = Fin 9 \<rparr>]"
  by (simp_all add: allShareCandidates_def usdCandidates_def oldDebtFacts_def eval_lookup)

text \<open>The shares and the debt lookups on the example facts.\<close>

theorem nearest_lookups_witness:
  "pickSharesNearestToEndDate isoTime lookupFacts ''2020-12-31'' = Some (Fin 5) \<and>
   (\<exists>b. isFirstNearest (\<lambda>c. daysBetween isoTime (p_end c) ''2020-12-31'')
          (allShareCandidates lookupFacts) b \<and>
        Fin 5 = p_val b \<and> \<not> js_lt (Fin 180) (daysBetween isoTime (p_end b) ''2020-12-31'')) \<and>
   pickDebtNearestToEndDate lookupFacts ''2020-12-31'' = Some (Fin 2) \<and>
   (\<exists>b. isFirstNearest (encodingDistance ''2020-12-31'')
          (usdCandidates lookupFacts [''LongTermDebtNoncurrent'', ''LongTermDebt'']) b \<and>
        Fin 2 = p_val b)"
  using nearest_lookups[of isoTime lookupFacts "''2020-12-31''" "[]" NaN]
  by (simp add: shares_tie debt_far)

text \<open>
  Two share counts ten days either side of the target: the first in the array is
  returned, which has the later date. A debt value one day after the target loses to one
  184 days before it, since 20210101 is farther from 20201231 than 20200630 is. An
  equity value 335 days before the target is returned under \<^verbatim>\<open>maxDays = 200\<close>, a
  cash value one day after it is rejected, and a debt value ten years before it is
  returned.
\<close>

theorem nearest_lookups_counterexample:
  "allShareCandidates lookupFacts =
     [\<lparr> p_end = ''2021-01-10'', p_val = Fin 5 \<rparr>, \<lparr> p_end = ''2020-12-21'', p_val = Fin 7 \<rparr>] \<and>
   daysBetween isoTime ''2021-01-10'' ''2020-12-31'' = Fin 10 \<and>
   daysBetween isoTime ''2020-12-21'' ''2020-12-31'' = Fin 10 \<and>
   ''2020-12-21'' < ''2021-01-10'' \<and>
   pickSharesNearestToEndDate isoTime lookupFacts ''2020-12-31'' = Some (Fin 5) \<and>
   usdCandidates lookupFacts [''LongTermDebtNoncurrent'', ''LongTermDebt''] =
     [\<lparr> p_end = ''2021-01-01'', p_val = Fin 1 \<rparr>, \<lparr> p_end = ''2020-06-30'', p_val = Fin 2 \<rparr>] \<and>
   daysBetween isoTime ''2021-01-01'' ''2020-12-31'' = Fin 1 \<and>
   daysBetween isoTime ''2020-06-30'' ''2020-12-31'' = Fin 184 \<and>
   pickDebtNearestToEndDate lookupFacts ''2020-12-31'' = Some (Fin 2) \<and>
   usdCandidates lookupFacts [''StockholdersEquity''] =
     [\<lparr> p_end = ''2020-01-31'', p_val = Fin 3 \<rparr>] \<and>
   daysBetween isoTime ''2020-01-31'' ''2020-12-31'' = Fin 335 \<and>
   pickNearestUSDValue lookupFacts [''StockholdersEquity''] ''2020-12-31'' (Fin 200) = Some (Fin 3) \<and>
   usdCandidates lookupFacts [''CashAndCashEquivalentsAtCarryingValue''] =
     [\<lparr> p_end = ''2021-01-01'', p_val = Fin 4 \<rparr>] \<and>
   pickNearestUSDValue lookupFacts [''CashAndCashEquivalentsAtCarryingValue''] ''2020-12-31''
     (Fin 200) = None \<and>
   usdCandidates oldDebtFacts [''LongTermDebtNoncurrent'', ''LongTermDebt''] =
     [\<lparr> p_end = ''2010-12-31'', p_val = Fin 9 \<rparr>] \<and>
   pickDebtNearestToEndDate oldDebtFacts ''2020-12-31'' = Some (Fin 9)"
  by (simp add: lookup_candidates days_examples shares_tie debt_far equity_far cash_near debt_old)


end
